theory Spec2Isabelle
  imports
    Complex_Main
    "HOL-Library.Word"
    "HOL-Library.Char_ord"
    "HOL-Library.List_Lexorder"
    "HOL-Library.AList"
begin

unbundle bit_operations_syntax

section \<open>Go values used by the SDK\<close>

text \<open>
  Go strings are byte strings: \<^typ>\<open>string\<close>. Go's \<^verbatim>\<open>int\<close> and \<^verbatim>\<open>int64\<close> are
  64-bit two's complement; they are modelled as \<^typ>\<open>int\<close>, and every operation of the
  source that can leave the 64-bit range is wrapped with \<open>int64\<close> below.
\<close>

definition int64 :: "int \<Rightarrow> int" where
  "int64 x = (x + 2 ^ 63) mod 2 ^ 64 - 2 ^ 63"

text \<open>\<^verbatim>\<open>fmt.Sprintf("%d", n)\<close>: an optional minus sign and the decimal digits.\<close>

definition digit_char :: "nat \<Rightarrow> char" where
  "digit_char d = char_of (48 + d)"

fun decimal :: "nat \<Rightarrow> string" where
  "decimal n = (if n < 10 then [digit_char n] else decimal (n div 10) @ [digit_char (n mod 10)])"

definition sprint_d :: "int \<Rightarrow> string" where
  "sprint_d n = (if n < 0 then CHR ''-'' # decimal (nat (- n)) else decimal (nat n))"

text \<open>
  \<^verbatim>\<open>strconv.ParseUint(s, 10, 64)\<close> and \<^verbatim>\<open>strconv.ParseInt(s, 10, 64)\<close>: a syntax
  error on the empty string and on any byte that is not a decimal digit (base 10 is given
  explicitly, so underscores are refused too), a range error outside the 64-bit range.
  Both errors are \<open>None\<close>. \<open>ParseUint\<close> accumulates without a bound here: \<open>ParseInt\<close>
  turns its range error into a range error of its own, so the range is checked once.
\<close>

definition digit_of :: "char \<Rightarrow> nat option" where
  "digit_of c = (let n = (of_char c :: nat) in if 48 \<le> n \<and> n \<le> 57 then Some (n - 48) else None)"

fun parse_digits :: "nat \<Rightarrow> string \<Rightarrow> nat option" where
  "parse_digits acc [] = Some acc"
| "parse_digits acc (c # cs) =
     (case digit_of c of None \<Rightarrow> None | Some d \<Rightarrow> parse_digits (acc * 10 + d) cs)"

definition ParseUint :: "string \<Rightarrow> nat option" where
  "ParseUint s = (if s = [] then None else parse_digits 0 s)"

definition ParseInt :: "string \<Rightarrow> int option" where
  "ParseInt s =
     (case s of
        [] \<Rightarrow> None
      | c # cs \<Rightarrow>
          (let neg = (c = CHR ''-'');
               s1 = (if c = CHR ''+'' \<or> c = CHR ''-'' then cs else s)
           in case ParseUint s1 of
                None \<Rightarrow> None
              | Some un \<Rightarrow>
                  if \<not> neg \<and> un \<ge> 2 ^ 63 then None
                  else if neg \<and> un > 2 ^ 63 then None
                  else Some (if neg then - int un else int un)))"

text \<open>\<^verbatim>\<open>strconv.Atoi\<close> on a 64-bit platform is \<^verbatim>\<open>ParseInt(s, 10, 0)\<close>.\<close>

definition Atoi :: "string \<Rightarrow> int option" where
  "Atoi s = ParseInt s"

text \<open>
  A decoded JSON value (\<^verbatim>\<open>interface{}\<close> after \<^verbatim>\<open>json.Unmarshal\<close>). An object is a
  \<^verbatim>\<open>map[string]interface{}\<close>: an association list read with \<^const>\<open>map_of\<close>.
\<close>

datatype json =
    JNull
  | JBool bool
  | JNumber rat
  | JString string
  | JArray "json list"
  | JObject "(string \<times> json) list"

section \<open>Go values: \<^verbatim>\<open>float64\<close>\<close>

text \<open>
  A \<^verbatim>\<open>float64\<close> is an IEEE 754 binary64 number: a finite value, given by the rational
  it denotes, an infinity, or NaN. The two zeros are not told apart. Every arithmetic
  operation computes the exact result and rounds it to the nearest representable value,
  ties to the even significand: 53 bits of significand, least exponent -1022 (so the
  spacing below \<open>2 ^ -1022\<close> is \<open>2 ^ -1074\<close>), overflow to an infinity from \<open>2 ^ 1024\<close>.
\<close>

datatype float64 = Finite rat | PInf | NInf | NaN

text \<open>The number of binary digits of a natural number, and \<open>\<lfloor>log\<^sub>2 x\<rfloor>\<close> for \<open>x > 0\<close>.\<close>

fun bit_length :: "nat \<Rightarrow> nat" where
  "bit_length n = (if n = 0 then 0 else Suc (bit_length (n div 2)))"

definition ilog2 :: "rat \<Rightarrow> int" where
  "ilog2 x =
     (if 1 \<le> x then int (bit_length (nat \<lfloor>x\<rfloor>)) - 1
      else - int (bit_length (nat (\<lceil>1 / x\<rceil> - 1))))"

definition round_half_even :: "rat \<Rightarrow> int" where
  "round_half_even x =
     (let f = \<lfloor>x\<rfloor>; d = x - of_int f
      in if d < 1 / 2 then f else if d > 1 / 2 then f + 1 else if even f then f else f + 1)"

text \<open>The spacing of the representable numbers around a positive number.\<close>

definition grid :: "rat \<Rightarrow> rat" where
  "grid a = 2 powi (max (ilog2 a) (- 1022) - 52)"

text \<open>The nearest number with a 53-bit significand, before the overflow check.\<close>

definition f64_val :: "rat \<Rightarrow> rat" where
  "f64_val x =
     (if x = 0 then 0
      else sgn x * of_int (round_half_even (\<bar>x\<bar> / grid \<bar>x\<bar>)) * grid \<bar>x\<bar>)"

definition f64_round :: "rat \<Rightarrow> float64" where
  "f64_round x =
     (let v = f64_val x
      in if 2 ^ 1024 \<le> v then PInf else if v \<le> - (2 ^ 1024) then NInf else Finite v)"

text \<open>The conversion \<^verbatim>\<open>float64(n)\<close> of an integer.\<close>

definition float64_of_int :: "int \<Rightarrow> float64" where
  "float64_of_int n = f64_round (of_int n)"

fun f64_neg :: "float64 \<Rightarrow> float64" where
  "f64_neg (Finite x) = Finite (- x)"
| "f64_neg PInf = NInf"
| "f64_neg NInf = PInf"
| "f64_neg NaN = NaN"

fun f64_add :: "float64 \<Rightarrow> float64 \<Rightarrow> float64" where
  "f64_add NaN b = NaN"
| "f64_add a NaN = NaN"
| "f64_add (Finite x) (Finite y) = f64_round (x + y)"
| "f64_add (Finite x) b = b"
| "f64_add a (Finite y) = a"
| "f64_add a b = (if a = b then a else NaN)"

fun f64_mul :: "float64 \<Rightarrow> float64 \<Rightarrow> float64" where
  "f64_mul NaN b = NaN"
| "f64_mul a NaN = NaN"
| "f64_mul (Finite x) (Finite y) = f64_round (x * y)"
| "f64_mul (Finite x) b = (if x = 0 then NaN else if 0 < x then b else f64_neg b)"
| "f64_mul a (Finite y) = (if y = 0 then NaN else if 0 < y then a else f64_neg a)"
| "f64_mul a b = (if a = b then PInf else NInf)"

text \<open>Division; a zero divisor counts as the positive zero.\<close>

fun f64_div :: "float64 \<Rightarrow> float64 \<Rightarrow> float64" where
  "f64_div NaN b = NaN"
| "f64_div a NaN = NaN"
| "f64_div (Finite x) (Finite y) =
     (if y = 0 then (if x = 0 then NaN else if 0 < x then PInf else NInf)
      else f64_round (x / y))"
| "f64_div (Finite x) b = Finite 0"
| "f64_div a (Finite y) = (if 0 \<le> y then a else f64_neg a)"
| "f64_div a b = NaN"

text \<open>The comparison \<^verbatim>\<open>a < b\<close>, false whenever an operand is NaN.\<close>

fun f64_less :: "float64 \<Rightarrow> float64 \<Rightarrow> bool" where
  "f64_less NaN b = False"
| "f64_less a NaN = False"
| "f64_less (Finite x) (Finite y) = (x < y)"
| "f64_less a NInf = False"
| "f64_less PInf b = False"
| "f64_less a b = True"

text \<open>
  \<^verbatim>\<open>math.Pow(2, y)\<close> for an integral \<open>y\<close>, the only arguments this package passes: the
  power of two, rounded (exact within the exponent range, an infinity above it, zero
  below it).
\<close>

fun math_Pow2 :: "float64 \<Rightarrow> float64" where
  "math_Pow2 (Finite y) = f64_round (2 powi \<lfloor>y\<rfloor>)"
| "math_Pow2 PInf = PInf"
| "math_Pow2 NInf = Finite 0"
| "math_Pow2 NaN = NaN"

text \<open>
  The conversion \<^verbatim>\<open>int64(x)\<close> drops the fraction. For a value outside the 64-bit range,
  an infinity or NaN, Go leaves the result to the implementation; amd64 gives the most
  negative \<^verbatim>\<open>int64\<close>.
\<close>

fun float64_to_int64 :: "float64 \<Rightarrow> int" where
  "float64_to_int64 (Finite x) =
     (let t = (if x < 0 then - \<lfloor>- x\<rfloor> else \<lfloor>x\<rfloor>)
      in if - (2 ^ 63) \<le> t \<and> t < 2 ^ 63 then t else - (2 ^ 63))"
| "float64_to_int64 a = - (2 ^ 63)"

text \<open>\<open>1 - 2 ^ -30\<close>, a representable number between 0.999999999 and 1.\<close>

definition almost_one :: rat where
  "almost_one = 1073741823 / 1073741824"

section \<open>errors.go\<close>

type_synonym ErrorCode = string

definition CodeInvalidURL :: ErrorCode where "CodeInvalidURL = ''invalid_url''"
definition CodeInvalidRequest :: ErrorCode where "CodeInvalidRequest = ''invalid_request''"
definition CodeMissingRequired :: ErrorCode where "CodeMissingRequired = ''missing_required''"
definition CodeUnauthorized :: ErrorCode where "CodeUnauthorized = ''unauthorized''"
definition CodeInvalidAPIKey :: ErrorCode where "CodeInvalidAPIKey = ''invalid_api_key''"
definition CodeExpiredSig :: ErrorCode where "CodeExpiredSig = ''expired_signature''"
definition CodeForbidden :: ErrorCode where "CodeForbidden = ''forbidden''"
definition CodeNoCredits :: ErrorCode where "CodeNoCredits = ''insufficient_credits''"
definition CodeNotFound :: ErrorCode where "CodeNotFound = ''not_found''"
definition CodeRateLimited :: ErrorCode where "CodeRateLimited = ''rate_limited''"
definition CodeTimeout :: ErrorCode where "CodeTimeout = ''timeout''"
definition CodeRenderFailed :: ErrorCode where "CodeRenderFailed = ''render_failed''"
definition CodeInternalError :: ErrorCode where "CodeInternalError = ''internal_error''"
definition CodeConnectionError :: ErrorCode where "CodeConnectionError = ''connection_error''"

record Error =
  Message :: string
  HTTPStatus :: int
  Code :: ErrorCode
  RequestID :: string
  RetryAfter :: int

text \<open>The method \<^verbatim>\<open>(*Error).IsRetryable\<close>.\<close>

definition Error_IsRetryable :: "Error \<Rightarrow> bool" where
  "Error_IsRetryable e =
     (if Code e = CodeRateLimited \<or> Code e = CodeTimeout \<or> Code e = CodeRenderFailed
         \<or> Code e = CodeInternalError \<or> Code e = CodeConnectionError
      then True
      else if HTTPStatus e \<ge> 500 \<and> HTTPStatus e < 600 then True
      else False)"

text \<open>
  A Go \<^verbatim>\<open>error\<close> value: a \<^verbatim>\<open>*Error\<close> of this package, or an error of any other
  dynamic type. The package function \<^verbatim>\<open>IsRetryable(err error)\<close> type-asserts first.
\<close>

datatype go_error = ApiError Error | OtherError string

definition IsRetryable :: "go_error \<Rightarrow> bool" where
  "IsRetryable err = (case err of OtherError _ \<Rightarrow> False | ApiError e \<Rightarrow> Error_IsRetryable e)"

text \<open>\<^verbatim>\<open>errorFromResponse\<close>; a failed type assertion leaves the variable as it was.\<close>

definition errorFromResponse :: "int \<Rightarrow> (string \<times> json) list \<Rightarrow> int \<Rightarrow> string \<Rightarrow> Error" where
  "errorFromResponse httpStatus body retryAfter requestID =
     (let message0 = ''HTTP '' @ sprint_d httpStatus @ '' error'';
          code0 = '''';
          (message1, code1, requestID1) =
            (case map_of body ''error'' of
               Some (JObject errMap) \<Rightarrow>
                 (case map_of errMap ''message'' of Some (JString msg) \<Rightarrow> msg | _ \<Rightarrow> message0,
                  case map_of errMap ''code'' of Some (JString c) \<Rightarrow> c | _ \<Rightarrow> code0,
                  case map_of errMap ''request_id'' of
                    Some (JString rid) \<Rightarrow> if requestID = '''' then rid else requestID
                  | _ \<Rightarrow> requestID)
             | _ \<Rightarrow> (message0, code0, requestID));
          requestID2 =
            (if requestID1 = '''' then
               (case map_of body ''request_id'' of Some (JString rid) \<Rightarrow> rid | _ \<Rightarrow> requestID1)
             else requestID1);
          code2 =
            (if code1 = '''' then
               (if httpStatus = 400 then CodeInvalidRequest
                else if httpStatus = 401 then CodeUnauthorized
                else if httpStatus = 403 then CodeForbidden
                else if httpStatus = 404 then CodeNotFound
                else if httpStatus = 408 then CodeTimeout
                else if httpStatus = 422 then CodeInvalidRequest
                else if httpStatus = 429 then CodeRateLimited
                else if httpStatus \<ge> 500 then CodeInternalError
                else code1)
             else code1)
      in \<lparr>Message = message1, HTTPStatus = httpStatus, Code = code2,
           RequestID = requestID2, RetryAfter = retryAfter\<rparr>)"

section \<open>http.go: the Retry-After header\<close>

definition parseRetryAfter :: "string \<Rightarrow> int" where
  "parseRetryAfter v = (if v = '''' then 0 else case Atoi v of None \<Rightarrow> 0 | Some n \<Rightarrow> n)"

section \<open>Go standard library: crypto/sha256, crypto/hmac, encoding/hex, crypto/subtle\<close>

text \<open>
  SHA-256 (FIPS 180-4) on 32-bit words, HMAC (RFC 2104) with a 64-byte block, and the
  lower-case hexadecimal encoding of \<^verbatim>\<open>hex.EncodeToString\<close>.
\<close>

type_synonym u32 = "32 word"
type_synonym byte = "8 word"

definition bytes :: "string \<Rightarrow> byte list" where
  "bytes s = map (\<lambda>c. word_of_nat (of_char c)) s"

definition rotr :: "nat \<Rightarrow> u32 \<Rightarrow> u32" where
  "rotr n x = drop_bit n x OR push_bit (32 - n) x"

definition Ch :: "u32 \<Rightarrow> u32 \<Rightarrow> u32 \<Rightarrow> u32" where
  "Ch x y z = (x AND y) XOR (NOT x AND z)"

definition Maj :: "u32 \<Rightarrow> u32 \<Rightarrow> u32 \<Rightarrow> u32" where
  "Maj x y z = (x AND y) XOR (x AND z) XOR (y AND z)"

definition bsig0 :: "u32 \<Rightarrow> u32" where
  "bsig0 x = rotr 2 x XOR rotr 13 x XOR rotr 22 x"

definition bsig1 :: "u32 \<Rightarrow> u32" where
  "bsig1 x = rotr 6 x XOR rotr 11 x XOR rotr 25 x"

definition ssig0 :: "u32 \<Rightarrow> u32" where
  "ssig0 x = rotr 7 x XOR rotr 18 x XOR drop_bit 3 x"

definition ssig1 :: "u32 \<Rightarrow> u32" where
  "ssig1 x = rotr 17 x XOR rotr 19 x XOR drop_bit 10 x"

definition sha256_K :: "u32 list" where
  "sha256_K =
    [1116352408, 1899447441, 3049323471, 3921009573, 961987163, 1508970993,
     2453635748, 2870763221, 3624381080, 310598401, 607225278, 1426881987,
     1925078388, 2162078206, 2614888103, 3248222580, 3835390401, 4022224774,
     264347078, 604807628, 770255983, 1249150122, 1555081692, 1996064986,
     2554220882, 2821834349, 2952996808, 3210313671, 3336571891, 3584528711,
     113926993, 338241895, 666307205, 773529912, 1294757372, 1396182291,
     1695183700, 1986661051, 2177026350, 2456956037, 2730485921, 2820302411,
     3259730800, 3345764771, 3516065817, 3600352804, 4094571909, 275423344,
     430227734, 506948616, 659060556, 883997877, 958139571, 1322822218,
     1537002063, 1747873779, 1955562222, 2024104815, 2227730452, 2361852424,
     2428436474, 2756734187, 3204031479, 3329325298]"

definition sha256_init :: "u32 list" where
  "sha256_init =
    [1779033703, 3144134277, 1013904242, 2773480762,
     1359893119, 2600822924, 528734635, 1541459225]"

definition be_bytes :: "nat \<Rightarrow> nat \<Rightarrow> byte list" where
  "be_bytes k n = map (\<lambda>i. word_of_nat (n div 256 ^ (k - 1 - i))) [0..<k]"

definition be_word :: "byte list \<Rightarrow> u32" where
  "be_word bs = foldl (\<lambda>acc b. push_bit 8 acc OR ucast b) 0 bs"

definition sha256_pad :: "byte list \<Rightarrow> byte list" where
  "sha256_pad m =
     m @ [128] @ replicate ((119 - length m mod 64) mod 64) 0 @ be_bytes 8 (8 * length m)"

fun chunks :: "nat \<Rightarrow> 'a list \<Rightarrow> 'a list list" where
  "chunks n xs = (if n = 0 \<or> xs = [] then [] else take n xs # chunks n (drop n xs))"

fun schedule :: "nat \<Rightarrow> u32 list \<Rightarrow> u32 list" where
  "schedule 0 w = w"
| "schedule (Suc n) w =
     (let t = length w
      in schedule n (w @ [ssig1 (w ! (t - 2)) + w ! (t - 7) + ssig0 (w ! (t - 15)) + w ! (t - 16)]))"

definition sha256_round :: "u32 list \<Rightarrow> u32 \<times> u32 \<Rightarrow> u32 list" where
  "sha256_round s kw =
     (case s of
        [a, b, c, d, e, f, g, h] \<Rightarrow>
          (let t1 = h + bsig1 e + Ch e f g + fst kw + snd kw;
               t2 = bsig0 a + Maj a b c
           in [t1 + t2, a, b, c, d + t1, e, f, g])
      | _ \<Rightarrow> s)"

definition sha256_block :: "u32 list \<Rightarrow> byte list \<Rightarrow> u32 list" where
  "sha256_block hs block =
     (let w = schedule 48 (map be_word (chunks 4 block))
      in map2 (+) hs (foldl sha256_round hs (zip sha256_K w)))"

definition sha256 :: "byte list \<Rightarrow> byte list" where
  "sha256 m =
     concat (map (\<lambda>w. be_bytes 4 (unat w)) (foldl sha256_block sha256_init (chunks 64 (sha256_pad m))))"

definition hmac_sha256 :: "byte list \<Rightarrow> byte list \<Rightarrow> byte list" where
  "hmac_sha256 key msg =
     (let k0 = (if length key > 64 then sha256 key else key);
          k = k0 @ replicate (64 - length k0) 0
      in sha256 (map (\<lambda>b. b XOR 92) k @ sha256 (map (\<lambda>b. b XOR 54) k @ msg)))"

definition hex_digit :: "nat \<Rightarrow> char" where
  "hex_digit n = ''0123456789abcdef'' ! (n mod 16)"

definition hex_EncodeToString :: "byte list \<Rightarrow> string" where
  "hex_EncodeToString bs = concat (map (\<lambda>b. [hex_digit (unat b div 16), hex_digit (unat b mod 16)]) bs)"

text \<open>
  \<^verbatim>\<open>subtle.ConstantTimeCompare\<close> returns 1 when the two byte slices have equal length
  and equal contents and 0 otherwise; its running time is not modelled.
\<close>

definition ConstantTimeCompare :: "string \<Rightarrow> string \<Rightarrow> int" where
  "ConstantTimeCompare x y = (if x = y then 1 else 0)"

section \<open>Go standard library: time.Duration\<close>

text \<open>
  A \<^verbatim>\<open>time.Duration\<close> is an \<^verbatim>\<open>int64\<close> count of nanoseconds. Go's \<^verbatim>\<open>/\<close> and
  \<^verbatim>\<open>%\<close> on integers truncate towards zero. \<^verbatim>\<open>Duration.Seconds\<close> computes
  \<^verbatim>\<open>float64(sec) + float64(nsec)/1e9\<close> from the whole seconds and the remaining
  nanoseconds, rounding the quotient and the sum.
\<close>

definition Second :: int where
  "Second = 1000000000"

definition go_quot :: "int \<Rightarrow> int \<Rightarrow> int" where
  "go_quot a b = sgn a * sgn b * (\<bar>a\<bar> div \<bar>b\<bar>)"

definition go_rem :: "int \<Rightarrow> int \<Rightarrow> int" where
  "go_rem a b = a - b * go_quot a b"

definition Duration_Seconds :: "int \<Rightarrow> float64" where
  "Duration_Seconds d =
     (let sec = go_quot d Second; nsec = go_rem d Second
      in f64_add (float64_of_int sec) (f64_div (float64_of_int nsec) (Finite 1000000000)))"

section \<open>webhook.go\<close>

definition DefaultTolerance :: int where
  "DefaultTolerance = 300 * Second"

text \<open>
  The age of a timestamp as \<^verbatim>\<open>VerifyWebhook\<close> computes it:
  \<^verbatim>\<open>age := time.Now().Unix() - ts; if age < 0 { age = -age }\<close>, in \<^verbatim>\<open>int64\<close>, where
  both the subtraction and the negation wrap.
\<close>

definition webhook_age :: "int \<Rightarrow> int \<Rightarrow> int" where
  "webhook_age now ts =
     (let age = int64 (now - ts) in if age < 0 then int64 (- age) else age)"

text \<open>
  \<^verbatim>\<open>VerifyWebhook\<close>. The first argument is the clock reading \<^verbatim>\<open>time.Now().Unix()\<close>;
  \<open>tolerance\<close> is a \<^verbatim>\<open>time.Duration\<close>. Arguments of Go type \<^verbatim>\<open>int64\<close> are taken
  in the 64-bit range.
\<close>

definition VerifyWebhook :: "int \<Rightarrow> string \<Rightarrow> string \<Rightarrow> string \<Rightarrow> string \<Rightarrow> int \<Rightarrow> bool" where
  "VerifyWebhook now payload signature timestamp secret tolerance =
     (if payload = '''' \<or> signature = '''' \<or> timestamp = '''' \<or> secret = '''' then False
      else
        let tolerance1 = (if tolerance = 0 then DefaultTolerance else tolerance)
        in case ParseInt timestamp of
             None \<Rightarrow> False
           | Some ts \<Rightarrow>
               (let age = webhook_age now ts
                in if age > float64_to_int64 (Duration_Seconds tolerance1) then False
                   else
                     let signedPayload = timestamp @ ''.'' @ payload;
                         expectedHash =
                           hex_EncodeToString (hmac_sha256 (bytes secret) (bytes signedPayload));
                         expected = ''sha256='' @ expectedHash
                     in ConstantTimeCompare expected signature = 1))"

section \<open>http.go: the retry loop\<close>

text \<open>
  The fields of \<^verbatim>\<open>httpClient\<close> (the \<^verbatim>\<open>*http.Client\<close> is left out); \<open>timeout\<close> is a
  \<^verbatim>\<open>time.Duration\<close>, \<open>retryDelay\<close> a \<^verbatim>\<open>float64\<close> number of seconds.
\<close>

record httpClient =
  apiKey :: string
  baseURL :: string
  timeout :: int
  maxRetries :: int
  retryDelay :: float64
  userAgent :: string

definition Version :: string where
  "Version = ''1.0.0''"

definition defaultBaseURL :: string where
  "defaultBaseURL = ''https://api.renderscreenshot.com''"

definition defaultTimeout :: int where
  "defaultTimeout = 30 * Second"

definition defaultRetryDelay :: float64 where
  "defaultRetryDelay = Finite 1"

definition maxRetryDelay :: float64 where
  "maxRetryDelay = Finite 30"

text \<open>\<^verbatim>\<open>strings.TrimRight(s, "/")\<close>.\<close>

definition TrimRight_slash :: "string \<Rightarrow> string" where
  "TrimRight_slash s = rev (dropWhile (\<lambda>c. c = CHR ''/'') (rev s))"

definition newHTTPClient :: "string \<Rightarrow> string \<Rightarrow> int \<Rightarrow> int \<Rightarrow> float64 \<Rightarrow> httpClient" where
  "newHTTPClient key url tmo retries delay =
     (let url1 = (if url = '''' then defaultBaseURL else url);
          tmo1 = (if tmo = 0 then defaultTimeout else tmo);
          delay1 = (if delay = Finite 0 then defaultRetryDelay else delay)
      in \<lparr>apiKey = key, baseURL = TrimRight_slash url1, timeout = tmo1, maxRetries = retries,
           retryDelay = delay1, userAgent = ''renderscreenshot-go/'' @ Version\<rparr>)"

text \<open>
  \<^verbatim>\<open>calculateDelay\<close>. The last argument is the sample that \<^verbatim>\<open>rand.Float64()\<close> returns,
  a \<^verbatim>\<open>float64\<close> in \<open>[0, 1)\<close>.
  Every operation is rounded on its own, as on amd64 (Go lets an
  implementation fuse a multiplication with the addition that follows it).
\<close>

definition calculateDelay :: "httpClient \<Rightarrow> Error \<Rightarrow> int \<Rightarrow> float64 \<Rightarrow> float64" where
  "calculateDelay c e attempt sample =
     (if RetryAfter e > 0 then float64_of_int (RetryAfter e)
      else
        let calculated = f64_mul (retryDelay c) (math_Pow2 (float64_of_int attempt));
            jitter = f64_mul (f64_mul sample (retryDelay c)) (Finite (1 / 2));
            delay = f64_add calculated jitter
        in if f64_less maxRetryDelay delay then maxRetryDelay else delay)"

text \<open>
  \<^verbatim>\<open>doRequest\<close> performs one HTTP exchange; what it returns is decided by the network and
  the server. Here it is a function of the number of requests already made in this call,
  returning the response (body and headers, \<open>'r\<close>) or the error. \<open>rnd\<close> gives the jitter
  sample drawn at each attempt.
\<close>

datatype 'r outcome = Success 'r | Failure go_error

text \<open>
  What \<^verbatim>\<open>doWithRetry\<close> returns, \<^verbatim>\<open>(body, headers, err)\<close> with \<open>None\<close> for \<^verbatim>\<open>nil\<close>,
  together with its effects: the number of requests made and the delays slept, in order.
\<close>

record 'r retry_run =
  ret_resp :: "'r option"
  ret_err :: "go_error option"
  requests :: nat
  sleeps :: "float64 list"

function retry_loop ::
  "httpClient \<Rightarrow> (nat \<Rightarrow> 'r outcome) \<Rightarrow> (nat \<Rightarrow> float64) \<Rightarrow> int \<Rightarrow> go_error option \<Rightarrow> float64 list
    \<Rightarrow> 'r retry_run" where
  "retry_loop c doRequest rnd attempt lastErr slept =
     (if attempt \<le> maxRetries c then
        (case doRequest (nat attempt) of
           Success r \<Rightarrow>
             \<lparr>ret_resp = Some r, ret_err = None, requests = nat attempt + 1, sleeps = slept\<rparr>
         | Failure e \<Rightarrow>
             (case e of
                OtherError m \<Rightarrow>
                  \<lparr>ret_resp = None, ret_err = Some e, requests = nat attempt + 1, sleeps = slept\<rparr>
              | ApiError apiErr \<Rightarrow>
                  if \<not> Error_IsRetryable apiErr \<or> attempt \<ge> maxRetries c then
                    \<lparr>ret_resp = None, ret_err = Some e, requests = nat attempt + 1, sleeps = slept\<rparr>
                  else
                    retry_loop c doRequest rnd (attempt + 1) (Some e)
                      (slept @ [calculateDelay c apiErr attempt (rnd (nat attempt))])))
      else \<lparr>ret_resp = None, ret_err = lastErr, requests = nat attempt, sleeps = slept\<rparr>)"
  by pat_completeness auto
termination
  by (relation "measure (\<lambda>(c, doRequest, rnd, attempt, lastErr, slept). nat (maxRetries c + 1 - attempt))")
    auto

definition doWithRetry :: "httpClient \<Rightarrow> (nat \<Rightarrow> 'r outcome) \<Rightarrow> (nat \<Rightarrow> float64) \<Rightarrow> 'r retry_run" where
  "doWithRetry c doRequest rnd = retry_loop c doRequest rnd 0 None []"

section \<open>Go standard library: net/url, sort, strings\<close>

text \<open>
  \<^verbatim>\<open>url.QueryEscape\<close>: letters, digits and \<^verbatim>\<open>- _ . ~\<close> stay, a space becomes \<^verbatim>\<open>+\<close>,
  every other byte becomes \<^verbatim>\<open>%XX\<close> in upper-case hexadecimal.
\<close>

definition shouldEscape :: "char \<Rightarrow> bool" where
  "shouldEscape c =
     (let n = (of_char c :: nat)
      in \<not> ((97 \<le> n \<and> n \<le> 122) \<or> (65 \<le> n \<and> n \<le> 90) \<or> (48 \<le> n \<and> n \<le> 57)
            \<or> c = CHR ''-'' \<or> c = CHR ''_'' \<or> c = CHR ''.'' \<or> c = CHR ''~''))"

definition upperhex :: "nat \<Rightarrow> char" where
  "upperhex n = ''0123456789ABCDEF'' ! (n mod 16)"

definition QueryEscape :: "string \<Rightarrow> string" where
  "QueryEscape s =
     concat (map (\<lambda>c. if c = CHR '' '' then ''+''
                       else if shouldEscape c
                         then [CHR ''%'', upperhex (of_char c div 16), upperhex (of_char c mod 16)]
                       else [c]) s)"

text \<open>\<^verbatim>\<open>strings.Join\<close>.\<close>

fun strings_Join :: "string list \<Rightarrow> string \<Rightarrow> string" where
  "strings_Join [] sep = []"
| "strings_Join [x] sep = x"
| "strings_Join (x # y # ys) sep = x @ sep @ strings_Join (y # ys) sep"

section \<open>The request signer: \<^verbatim>\<open>(*Client).GenerateURL\<close>\<close>

text \<open>
  A \<^verbatim>\<open>map[string]string\<close> is an association list with distinct keys; the order of the
  list is the order in which \<^verbatim>\<open>range\<close> happens to iterate. \<^verbatim>\<open>m[k] = v\<close> is
  \<^const>\<open>AList.update\<close>, and reading a key that is absent gives the empty string.
  \<^verbatim>\<open>sort.Strings\<close> is \<^const>\<open>sort\<close> on the bytewise lexicographic order of strings.
\<close>

record Client =
  http :: httpClient
  signingKey :: string
  publicKeyID :: string

definition map_index :: "(string \<times> string) list \<Rightarrow> string \<Rightarrow> string" where
  "map_index m k = (case map_of m k of None \<Rightarrow> '''' | Some v \<Rightarrow> v)"

text \<open>The parameter map that is signed: \<open>expires\<close> and \<open>key_id\<close>, then the flat options.\<close>

definition signParams_of :: "string \<Rightarrow> int \<Rightarrow> (string \<times> string) list \<Rightarrow> (string \<times> string) list" where
  "signParams_of keyID expiresAt flatMap =
     fold (\<lambda>(k, v) m. AList.update k v m) flatMap
       [(''expires'', sprint_d expiresAt), (''key_id'', keyID)]"

text \<open>The query string: the keys sorted, each with its escaped value, joined by \<^verbatim>\<open>&\<close>.\<close>

definition queryString_of :: "(string \<times> string) list \<Rightarrow> string" where
  "queryString_of signParams =
     (let keys = sort (map fst signParams);
          parts = map (\<lambda>k. k @ ''='' @ QueryEscape (map_index signParams k)) keys
      in strings_Join parts ''&'')"

text \<open>
  \<^verbatim>\<open>GenerateURL\<close>. \<open>flatMap\<close> is the value of \<^verbatim>\<open>options.toFlatMap()\<close>, \<open>expiresAt\<close> the
  value of \<^verbatim>\<open>expiresAt.Unix()\<close>; the result is the pair \<^verbatim>\<open>(string, error)\<close>.
\<close>

definition GenerateURL ::
  "Client \<Rightarrow> (string \<times> string) list \<Rightarrow> int \<Rightarrow> string \<Rightarrow> string \<Rightarrow> string \<times> Error option" where
  "GenerateURL c flatMap expiresAt signingKeyArg publicKeyIDArg =
     (let secret = (if signingKeyArg = '''' then signingKey c else signingKeyArg);
          keyID = (if publicKeyIDArg = '''' then publicKeyID c else publicKeyIDArg)
      in if secret = '''' \<or> keyID = '''' then
           ('''',
            Some \<lparr>Message = ''Signed URLs require signing_key (rs_secret_*) and public_key_id (rs_pub_*). Pass them to New() or to GenerateURL directly.'',
                  HTTPStatus = 400, Code = CodeInvalidRequest, RequestID = '''', RetryAfter = 0\<rparr>)
         else
           let signParams = signParams_of keyID expiresAt flatMap;
               queryString = queryString_of signParams;
               signature = hex_EncodeToString (hmac_sha256 (bytes secret) (bytes queryString))
           in (baseURL (http c) @ ''/v1/screenshot?'' @ queryString @ ''&signature='' @ signature,
               None))"

section \<open>Decimal numerals, as the specification reads a header value\<close>

text \<open>
  These two definitions follow the specification's words, not the code: a string of
  decimal digits is a non-empty string of the bytes \<open>0\<close> to \<open>9\<close>, and its value is the sum
  of its digits weighted by the powers of ten of their positions.
\<close>

definition spec_digits :: "string \<Rightarrow> bool" where
  "spec_digits ds \<longleftrightarrow> ds \<noteq> [] \<and> (\<forall>c\<in>set ds. c \<in> set ''0123456789'')"

fun spec_value :: "string \<Rightarrow> nat" where
  "spec_value [] = 0"
| "spec_value (c # cs) = (of_char c - 48) * 10 ^ length cs + spec_value cs"

section \<open>Scenarios\<close>

text \<open>
  The inputs of the repository's tests, used below to run the definitions: the test
  client of \<^verbatim>\<open>TestHTTPClientRetry\<close>, a server that fails twice with status 500 and then
  answers, a server that always answers 401, and a jitter source that always draws 0.
\<close>

definition internal_error_500 :: Error where
  "internal_error_500 =
     \<lparr>Message = ''Internal error'', HTTPStatus = 500, Code = ''internal_error'',
      RequestID = '''', RetryAfter = 0\<rparr>"

definition unauthorized_401 :: Error where
  "unauthorized_401 =
     \<lparr>Message = ''Unauthorized'', HTTPStatus = 401, Code = ''unauthorized'',
      RequestID = '''', RetryAfter = 0\<rparr>"


definition test_client :: "int \<Rightarrow> httpClient" where
  "test_client retries =
     newHTTPClient ''test_key'' ''http://127.0.0.1:8080'' (10 * Second) retries (f64_round (1 / 100))"

definition server_fails_twice :: "nat \<Rightarrow> string outcome" where
  "server_fails_twice n = (if n < 2 then Failure (ApiError internal_error_500) else Success ''ok'')"

definition server_unauthorized :: "nat \<Rightarrow> string outcome" where
  "server_unauthorized n = Failure (ApiError unauthorized_401)"

definition no_jitter :: "nat \<Rightarrow> float64" where
  "no_jitter n = Finite 0"

definition signing_client :: Client where
  "signing_client =
     \<lparr>http = newHTTPClient ''rs_live_test'' ''https://api.renderscreenshot.com'' 0 0 (Finite 0),
      signingKey = ''rs_secret_test123'', publicKeyID = ''rs_pub_test456''\<rparr>"

definition unsigned_client :: Client where
  "unsigned_client =
     \<lparr>http = newHTTPClient ''rs_live_test'' '''' 0 0 (Finite 0), signingKey = '''', publicKeyID = ''''\<rparr>"

section \<open>Properties\<close>

lemmas Code_defs =
  CodeInvalidURL_def CodeInvalidRequest_def CodeMissingRequired_def CodeUnauthorized_def
  CodeInvalidAPIKey_def CodeExpiredSig_def CodeForbidden_def CodeNoCredits_def
  CodeNotFound_def CodeRateLimited_def CodeTimeout_def CodeRenderFailed_def
  CodeInternalError_def CodeConnectionError_def

declare retry_loop.simps [simp del]

subsection \<open>Integers, parsing and durations\<close>

lemma int64_id: "- (2 ^ 63) \<le> x \<Longrightarrow> x < 2 ^ 63 \<Longrightarrow> int64 x = x"
  by (simp add: int64_def)

lemma int64_wrap_hi: "2 ^ 63 \<le> x \<Longrightarrow> x < 2 ^ 63 + 2 ^ 64 \<Longrightarrow> int64 x = x - 2 ^ 64"
proof -
  assume a: "2 ^ 63 \<le> x" "x < 2 ^ 63 + 2 ^ 64"
  have "(x + 2 ^ 63) mod 2 ^ 64 = (x + 2 ^ 63 - 2 ^ 64) mod (2 ^ 64 :: int)"
    by (simp only: minus_mod_self2)
  also have "\<dots> = x + 2 ^ 63 - 2 ^ 64"
    using a by (intro mod_pos_pos_trivial) simp_all
  finally show ?thesis by (simp add: int64_def)
qed

lemma digit_of_Some: "digit_of c \<noteq> None \<longleftrightarrow> c \<in> set ''0123456789''"
proof (cases c)
  case (Char b0 b1 b2 b3 b4 b5 b6 b7)
  then show ?thesis
    by (cases b0; cases b1; cases b2; cases b3; cases b4; cases b5; cases b6; cases b7)
       (simp_all add: digit_of_def)
qed

lemma parse_digits_None: "\<exists>c\<in>set s. digit_of c = None \<Longrightarrow> parse_digits acc s = None"
  by (induction s arbitrary: acc) (auto split: option.splits)

lemma ParseInt_range: "ParseInt s = Some n \<Longrightarrow> - (2 ^ 63) \<le> n \<and> n < 2 ^ 63"
  by (cases s) (auto simp: ParseInt_def Let_def split: option.splits if_splits)

lemma ParseInt_nonneg: "ParseInt v = Some n \<Longrightarrow> take 1 v \<noteq> ''-'' \<Longrightarrow> 0 \<le> n"
  by (cases v) (auto simp: ParseInt_def Let_def split: option.splits if_splits)

lemma le_div_Second: "a \<le> t div 1000000000 \<longleftrightarrow> a * Second \<le> (t::int)"
proof -
  have "t = 1000000000 * (t div 1000000000) + t mod 1000000000" by simp
  moreover have "0 \<le> t mod 1000000000" "t mod 1000000000 < 1000000000" by simp_all
  ultimately show ?thesis unfolding Second_def by linarith
qed

subsection \<open>Rounding to \<^verbatim>\<open>float64\<close>\<close>

declare bit_length.simps [simp del]

lemma bit_length_bounds: "0 < n \<Longrightarrow> 2 ^ (bit_length n - 1) \<le> n \<and> n < 2 ^ bit_length n"
proof (induction n rule: bit_length.induct)
  case (1 n)
  show ?case
  proof (cases "n div 2 = 0")
    case True
    with 1(2) have "n = 1" by (auto simp: div_eq_0_iff)
    then show ?thesis by (simp add: bit_length.simps)
  next
    case False
    then have ih: "2 ^ (bit_length (n div 2) - 1) \<le> n div 2" "n div 2 < 2 ^ bit_length (n div 2)"
      using 1 by auto
    have pos: "0 < bit_length (n div 2)" using False by (subst bit_length.simps) simp
    have bl: "bit_length n = Suc (bit_length (n div 2))" using 1(2) by (subst bit_length.simps) simp
    have "2 ^ (bit_length n - 1) = 2 * 2 ^ (bit_length (n div 2) - 1)"
      using pos bl by (cases "bit_length (n div 2)") simp_all
    also have "\<dots> \<le> 2 * (n div 2)" using ih(1) by simp
    also have "\<dots> \<le> n" by simp
    finally have a: "2 ^ (bit_length n - 1) \<le> n" .
    have "n < 2 * (n div 2) + 2" by presburger
    also have "\<dots> \<le> 2 * 2 ^ bit_length (n div 2)" using ih(2) by simp
    finally have "n < 2 ^ bit_length n" by (simp add: bl)
    with a show ?thesis by simp
  qed
qed

lemma ilog2_bounds:
  assumes "0 < x"
  shows "2 powi ilog2 x \<le> x \<and> x < 2 powi (ilog2 x + 1)"
proof (cases "1 \<le> x")
  case True
  define n where "n = nat \<lfloor>x\<rfloor>"
  have n: "0 < n" "of_nat n \<le> x" "x < of_nat n + 1"
    using True by (simp_all add: n_def le_floor_iff) linarith+
  note b = bit_length_bounds [OF n(1)]
  have bl: "0 < bit_length n" using n(1) by (subst bit_length.simps) simp
  have e: "ilog2 x = int (bit_length n) - 1" using True by (simp add: ilog2_def n_def)
  have "(2::rat) powi (int (bit_length n) - 1) = 2 ^ (bit_length n - 1)"
    using bl by (simp add: power_int_def nat_diff_distrib')
  also have "\<dots> = of_nat (2 ^ (bit_length n - 1))" by simp
  also have "\<dots> \<le> of_nat n" using b by (simp only: of_nat_le_iff)
  finally have lo: "2 powi (int (bit_length n) - 1) \<le> x" using n(2) by simp
  have "of_nat n + 1 \<le> (of_nat (2 ^ bit_length n) :: rat)"
    using b by (metis Suc_leI of_nat_Suc of_nat_le_iff add.commute of_nat_1 of_nat_add)
  then have "x < 2 powi (int (bit_length n))" using n(3) by (simp add: power_int_def)
  with lo e show ?thesis by simp
next
  case False
  define y where "y = 1 / x"
  define m where "m = nat (\<lceil>y\<rceil> - 1)"
  have y: "1 < y" using False assms by (simp add: y_def)
  then have c: "2 \<le> \<lceil>y\<rceil>" by (simp add: le_ceiling_iff)
  have m: "0 < m" "of_nat m < y" "y \<le> of_nat m + 1"
    using c by (simp_all add: m_def) linarith+
  note b = bit_length_bounds [OF m(1)]
  have bl: "0 < bit_length m" using m(1) by (subst bit_length.simps) simp
  have e: "ilog2 x = - int (bit_length m)" using False by (simp add: ilog2_def m_def y_def)
  have "(of_nat (2 ^ (bit_length m - 1)) :: rat) \<le> of_nat m" using b by (simp only: of_nat_le_iff)
  then have "(2::rat) ^ (bit_length m - 1) \<le> of_nat m" by (simp only: of_nat_power of_nat_numeral)
  then have lo: "(2::rat) ^ (bit_length m - 1) < y" using m(2) by linarith
  have "of_nat m + 1 \<le> (of_nat (2 ^ bit_length m) :: rat)"
    using b by (metis Suc_leI of_nat_Suc of_nat_le_iff add.commute of_nat_1 of_nat_add)
  then have hi: "y \<le> 2 ^ bit_length m" using m(3) by simp
  have x: "x = 1 / y" using assms by (simp add: y_def)
  have "2 powi (- int (bit_length m)) = 1 / (2::rat) ^ bit_length m"
    by (simp add: power_int_def field_simps)
  also have "\<dots> \<le> 1 / y" using hi y by (intro divide_left_mono) simp_all
  finally have a: "2 powi (- int (bit_length m)) \<le> x" using x by simp
  have "1 / y < 1 / (2::rat) ^ (bit_length m - 1)"
    using lo y by (intro divide_strict_left_mono) (simp_all add: zero_less_mult_iff)
  also have "\<dots> = 2 powi (- int (bit_length m) + 1)"
    using bl by (cases "bit_length m") (simp_all add: power_int_def field_simps nat_add_distrib)
  finally have "x < 2 powi (- int (bit_length m) + 1)" using x by simp
  with a e show ?thesis by simp
qed

lemma powi2_less_iff: "(2::rat) powi a < 2 powi b \<longleftrightarrow> a < b"
proof
  assume "(2::rat) powi a < 2 powi b"
  then show "a < b"
    using power_int_increasing [of b a "2::rat"] by (cases "a < b") auto
next
  assume "a < b"
  then show "(2::rat) powi a < 2 powi b" by (intro power_int_strict_increasing) simp_all
qed

lemma powi2_le_iff: "(2::rat) powi a \<le> 2 powi b \<longleftrightarrow> a \<le> b"
  using powi2_less_iff [of b a] by (auto simp: not_less [symmetric])


lemma powi2_add: "(2::rat) powi a * 2 powi b = 2 powi (a + b)"
  by (simp add: power_int_add)

lemma powi2_div: "(2::rat) powi a / 2 powi b = 2 powi (a - b)"
  by (simp add: power_int_diff)

lemma pow2_powi: "(2::rat) ^ n = 2 powi int n"
  by simp

lemma of_int_pow2_le: "k \<le> 2 ^ n \<Longrightarrow> of_int k \<le> (2::rat) powi int n"
  by (metis of_int_le_iff of_int_numeral of_int_power pow2_powi)

lemma of_int_pow2_ge: "2 ^ n \<le> k \<Longrightarrow> (2::rat) powi int n \<le> of_int k"
  by (metis of_int_le_iff of_int_numeral of_int_power pow2_powi)

lemma of_int_pow2_less: "k < 2 ^ n \<Longrightarrow> of_int k < (2::rat) powi int n"
  by (metis of_int_less_iff of_int_numeral of_int_power pow2_powi)

lemma round_half_even_int [simp]: "round_half_even (of_int k) = k"
  by (simp add: round_half_even_def)

lemma round_half_even_bounds: "\<lfloor>x\<rfloor> \<le> round_half_even x \<and> round_half_even x \<le> \<lfloor>x\<rfloor> + 1"
  by (simp add: round_half_even_def Let_def)

lemma round_half_even_mono: "x \<le> y \<Longrightarrow> round_half_even x \<le> round_half_even y"
proof -
  assume xy: "x \<le> y"
  then have f: "\<lfloor>x\<rfloor> \<le> \<lfloor>y\<rfloor>" by (rule floor_mono)
  show ?thesis
  proof (cases "\<lfloor>x\<rfloor> = \<lfloor>y\<rfloor>")
    case True
    then have "x - of_int \<lfloor>x\<rfloor> \<le> y - of_int \<lfloor>y\<rfloor>" using xy by simp
    then show ?thesis using True by (auto simp: round_half_even_def Let_def)
  next
    case False
    then have "\<lfloor>x\<rfloor> + 1 \<le> \<lfloor>y\<rfloor>" using f by simp
    then show ?thesis
      using round_half_even_bounds [of x] round_half_even_bounds [of y] by linarith
  qed
qed

lemma round_half_even_ge: "of_int k \<le> x \<Longrightarrow> k \<le> round_half_even x"
  using round_half_even_mono [of "of_int k" x] by simp

lemma round_half_even_le: "x \<le> of_int k \<Longrightarrow> round_half_even x \<le> k"
  using round_half_even_mono [of x "of_int k"] by simp

lemma f64_val_0 [simp]: "f64_val 0 = 0"
  by (simp add: f64_val_def)

lemma f64_val_minus: "f64_val (- x) = - f64_val x"
  by (simp add: f64_val_def)

lemma grid_pos: "0 < grid a"
  by (simp add: grid_def)

lemma f64_val_pos: "0 < x \<Longrightarrow> f64_val x = of_int (round_half_even (x / grid x)) * grid x"
  by (simp add: f64_val_def)

lemma f64_val_nonneg: "0 \<le> x \<Longrightarrow> 0 \<le> f64_val x"
proof (cases "x = 0")
  case False
  assume "0 \<le> x"
  with False have p: "0 < x" by simp
  have "0 \<le> x / grid x" using p grid_pos [of x] by simp
  then have "0 \<le> round_half_even (x / grid x)"
    using round_half_even_ge [of 0 "x / grid x"] by simp
  then show ?thesis using grid_pos [of x] by (simp add: f64_val_pos [OF p])
qed simp

lemma grid_le_iff: "grid a \<le> grid b \<longleftrightarrow> max (ilog2 a) (- 1022) \<le> max (ilog2 b) (- 1022)"
  by (simp only: grid_def powi2_le_iff) auto

text \<open>A positive number rounds to at most the top of its binade.\<close>

lemma f64_val_upper:
  assumes "0 < x"
  shows "f64_val x \<le> 2 powi (max (ilog2 x) (- 1022) + 1)"
proof -
  let ?E = "max (ilog2 x) (- 1022)"
  have "ilog2 x + 1 \<le> ?E + 1" by simp
  then have "(2::rat) powi (ilog2 x + 1) \<le> 2 powi (?E + 1)" by (simp only: powi2_le_iff)
  then have "x < 2 powi (?E + 1)" using ilog2_bounds [OF assms] by linarith
  then have "x / grid x < 2 powi (?E + 1) / grid x"
    using grid_pos [of x] by (simp add: divide_strict_right_mono)
  also have "2 powi (?E + 1) / grid x = (2::rat) powi (int 53)"
    unfolding grid_def powi2_div by simp
  also have "\<dots> = of_int (2 ^ 53)" by (simp only: pow2_powi [symmetric]) simp
  finally have "x / grid x \<le> of_int (2 ^ 53)" by simp
  then have "round_half_even (x / grid x) \<le> 2 ^ 53" by (rule round_half_even_le)
  then have "of_int (round_half_even (x / grid x)) \<le> (2::rat) powi (int 53)"
    by (rule of_int_pow2_le)
  then have "of_int (round_half_even (x / grid x)) * grid x \<le> 2 powi (int 53) * grid x"
    using grid_pos [of x] by (simp only: mult_right_mono less_imp_le)
  also have "(2::rat) powi (int 53) * grid x = 2 powi (?E + 1)"
    unfolding grid_def powi2_add by (simp add: add.commute)
  finally show ?thesis by (simp only: f64_val_pos [OF assms])
qed

text \<open>A number in the normal range rounds to at least the bottom of its binade.\<close>

lemma f64_val_lower:
  assumes "0 < x" "- 1022 \<le> ilog2 x"
  shows "2 powi ilog2 x \<le> f64_val x"
proof -
  have g: "grid x = 2 powi (ilog2 x - 52)" using assms(2) by (simp add: grid_def max_def)
  have "2 powi ilog2 x / grid x \<le> x / grid x"
    using ilog2_bounds [OF assms(1)] grid_pos [of x] by (simp add: divide_right_mono)
  moreover have "2 powi ilog2 x / grid x = (2::rat) powi (int 52)"
    unfolding g powi2_div by simp
  moreover have "(2::rat) powi (int 52) = of_int (2 ^ 52)" by (simp only: pow2_powi [symmetric]) simp
  ultimately have "of_int (2 ^ 52) \<le> x / grid x" by simp
  then have "2 ^ 52 \<le> round_half_even (x / grid x)" by (rule round_half_even_ge)
  then have "(2::rat) powi (int 52) \<le> of_int (round_half_even (x / grid x))"
    by (rule of_int_pow2_ge)
  then have "2 powi (int 52) * grid x \<le> of_int (round_half_even (x / grid x)) * grid x"
    using grid_pos [of x] by (simp only: mult_right_mono less_imp_le)
  moreover have "(2::rat) powi (int 52) * grid x = 2 powi ilog2 x"
    unfolding g powi2_add by simp
  ultimately show ?thesis by (simp only: f64_val_pos [OF assms(1)])
qed

lemma ilog2_mono: "0 < x \<Longrightarrow> x \<le> y \<Longrightarrow> ilog2 x \<le> ilog2 y"
proof -
  assume a: "0 < x" "x \<le> y"
  then have y: "0 < y" by simp
  have "(2::rat) powi ilog2 x < 2 powi (ilog2 y + 1)"
    using ilog2_bounds [OF a(1)] ilog2_bounds [OF y] a(2) by linarith
  then have "ilog2 x < ilog2 y + 1" by (simp only: powi2_less_iff)
  then show ?thesis by simp
qed

lemma f64_val_mono_pos:
  assumes "0 < x" "x \<le> y"
  shows "f64_val x \<le> f64_val y"
proof -
  have y: "0 < y" using assms by simp
  let ?Ex = "max (ilog2 x) (- 1022)" and ?Ey = "max (ilog2 y) (- 1022)"
  have le: "?Ex \<le> ?Ey" using ilog2_mono [OF assms] by simp
  show ?thesis
  proof (cases "?Ex = ?Ey")
    case True
    then have g: "grid x = grid y" by (simp add: grid_def)
    have "x / grid y \<le> y / grid y" using assms(2) grid_pos [of y] by (simp add: divide_right_mono)
    then have "round_half_even (x / grid y) \<le> round_half_even (y / grid y)"
      by (rule round_half_even_mono)
    then have "of_int (round_half_even (x / grid y)) * grid y
        \<le> of_int (round_half_even (y / grid y)) * grid y"
      using grid_pos [of y] by (simp add: mult_right_mono)
    then show ?thesis by (simp add: f64_val_pos [OF assms(1)] f64_val_pos [OF y] g)
  next
    case False
    with le have lt: "?Ex + 1 \<le> ?Ey" by simp
    then have n: "- 1022 \<le> ilog2 y" "?Ey = ilog2 y" by (auto simp: max_def split: if_splits)
    have "f64_val x \<le> 2 powi (?Ex + 1)" by (rule f64_val_upper [OF assms(1)])
    also have "\<dots> \<le> 2 powi ilog2 y" using lt n(2) by (simp only: powi2_le_iff)
    also have "\<dots> \<le> f64_val y" by (rule f64_val_lower [OF y n(1)])
    finally show ?thesis .
  qed
qed

lemma f64_val_mono: "x \<le> y \<Longrightarrow> f64_val x \<le> f64_val y"
proof -
  assume xy: "x \<le> y"
  consider (a) "0 < x" | (b) "x \<le> 0" "0 \<le> y" | (c) "y < 0" by linarith
  then show ?thesis
  proof cases
    case a
    then show ?thesis using xy by (rule f64_val_mono_pos)
  next
    case b
    have "f64_val x \<le> 0" using f64_val_nonneg [of "- x"] b(1) by (simp add: f64_val_minus)
    moreover have "0 \<le> f64_val y" using b(2) by (rule f64_val_nonneg)
    ultimately show ?thesis by simp
  next
    case c
    have "f64_val (- y) \<le> f64_val (- x)" using c xy by (intro f64_val_mono_pos) simp_all
    then show ?thesis by (simp add: f64_val_minus)
  qed
qed

text \<open>Numbers with a significand below \<open>2 ^ 53\<close> and an exponent from -1074 are exact.\<close>

lemma f64_val_dyadic_pos:
  assumes k: "0 < k" "k < 2 ^ 53" and j: "- 1074 \<le> j"
  shows "f64_val (of_int k * 2 powi j) = of_int k * 2 powi j"
proof -
  let ?x = "of_int k * 2 powi j :: rat"
  have x: "0 < ?x" using k(1) by simp
  let ?E = "max (ilog2 ?x) (- 1022)"
  have "of_int k < (2::rat) powi (int 53)" using k(2) by (rule of_int_pow2_less)
  then have "?x < 2 powi (int 53) * 2 powi j" by (simp only: mult_strict_right_mono zero_less_power_int zero_less_numeral)
  also have "\<dots> = 2 powi (j + 53)"
    unfolding powi2_add by (simp add: add.commute)
  finally have "(2::rat) powi ilog2 ?x < 2 powi (j + 53)"
    using ilog2_bounds [OF x] by linarith
  then have "ilog2 ?x < j + 53" by (simp only: powi2_less_iff)
  then have t: "0 \<le> j - (?E - 52)" using j by simp
  define t where "t = nat (j - (?E - 52))"
  have "?x / grid ?x = of_int k * (2 powi j / 2 powi (?E - 52))"
    by (simp add: grid_def)
  also have "2 powi j / 2 powi (?E - 52) = (2::rat) powi (j - (?E - 52))"
    by (rule powi2_div)
  also have "\<dots> = 2 ^ t" using t by (simp add: power_int_def t_def)
  finally have q: "?x / grid ?x = of_int (k * 2 ^ t)" by simp
  have "f64_val ?x = of_int (round_half_even (?x / grid ?x)) * grid ?x"
    by (rule f64_val_pos [OF x])
  also have "\<dots> = (?x / grid ?x) * grid ?x" by (simp only: q round_half_even_int)
  also have "\<dots> = ?x" using grid_pos [of ?x] by simp
  finally show ?thesis .
qed

lemma f64_val_dyadic:
  assumes "\<bar>k\<bar> < 2 ^ 53" "- 1074 \<le> j"
  shows "f64_val (of_int k * 2 powi j) = of_int k * 2 powi j"
proof -
  consider (p) "0 < k" | (z) "k = 0" | (n) "k < 0" by linarith
  then show ?thesis
  proof cases
    case p
    then show ?thesis using assms by (intro f64_val_dyadic_pos) simp_all
  next
    case z
    then show ?thesis by simp
  next
    case n
    then have "f64_val (of_int (- k) * 2 powi j) = of_int (- k) * 2 powi j"
      using assms by (intro f64_val_dyadic_pos) simp_all
    then show ?thesis using f64_val_minus [of "of_int k * 2 powi j"] by simp
  qed
qed

lemma f64_val_int: "\<bar>n\<bar> \<le> 2 ^ 53 \<Longrightarrow> f64_val (of_int n) = of_int n"
proof -
  assume a: "\<bar>n\<bar> \<le> 2 ^ 53"
  show ?thesis
  proof (cases "\<bar>n\<bar> = 2 ^ 53")
    case True
    have "f64_val (of_int 1 * 2 powi 53) = of_int 1 * 2 powi 53"
      by (intro f64_val_dyadic) simp_all
    then have p: "f64_val (2 ^ 53) = 2 ^ 53" by (simp add: power_int_def)
    from True have "n = 2 ^ 53 \<or> n = - (2 ^ 53)" by linarith
    then show ?thesis using p f64_val_minus [of "2 ^ 53"] by auto
  next
    case False
    with a have "\<bar>n\<bar> < 2 ^ 53" by simp
    then have "f64_val (of_int n * 2 powi 0) = of_int n * 2 powi 0"
      by (intro f64_val_dyadic) simp_all
    then show ?thesis by simp
  qed
qed

lemma f64_round_Finite: "\<bar>f64_val x\<bar> < 2 ^ 1024 \<Longrightarrow> f64_round x = Finite (f64_val x)"
  by (simp add: f64_round_def Let_def abs_less_iff)

text \<open>Between two representable numbers, rounding stays between them.\<close>

lemma f64_round_between:
  assumes "lo \<le> x" "x \<le> hi" "f64_val lo = lo" "f64_val hi = hi"
    and "- (2 ^ 1024) < lo" "hi < 2 ^ 1024"
  shows "\<exists>v. f64_round x = Finite v \<and> lo \<le> v \<and> v \<le> hi"
proof -
  have "lo \<le> f64_val x" "f64_val x \<le> hi"
    using f64_val_mono [OF assms(1)] f64_val_mono [OF assms(2)] assms(3,4) by simp_all
  then show ?thesis using assms(5,6) by (simp add: f64_round_def Let_def)
qed

lemma f64_round_le_minus1:
  assumes "x \<le> - 1"
  shows "f64_round x = NInf \<or> (\<exists>w. f64_round x = Finite w \<and> w \<le> - 1)"
proof -
  have "f64_val (of_int (- 1)) = of_int (- 1)" by (rule f64_val_int) simp
  then have "f64_val x \<le> - 1" using f64_val_mono [OF assms] by simp
  then show ?thesis by (auto simp: f64_round_def Let_def)
qed

lemma float64_of_int_exact: "\<bar>n\<bar> \<le> 2 ^ 53 \<Longrightarrow> float64_of_int n = Finite (of_int n)"
proof -
  assume a: "\<bar>n\<bar> \<le> 2 ^ 53"
  then have "\<bar>of_int n :: rat\<bar> \<le> 2 ^ 53"
    by (metis of_int_abs of_int_le_iff of_int_numeral of_int_power)
  then have "\<bar>of_int n :: rat\<bar> < 2 ^ 1024" by simp
  then show ?thesis
    using f64_val_int [OF a] by (simp add: float64_of_int_def f64_round_Finite)
qed


lemma almost_one_exact: "f64_val almost_one = almost_one"
proof -
  have "f64_val (of_int 1073741823 * 2 powi (- 30)) = of_int 1073741823 * 2 powi (- 30)"
    by (rule f64_val_dyadic) simp_all
  then show ?thesis by (simp add: almost_one_def power_int_minus field_simps)
qed

lemma below_almost_one_exact:
  assumes "0 \<le> s" "s < 2 ^ 23"
  shows "f64_val (of_int s + almost_one) = of_int s + almost_one"
proof -
  have "\<bar>(s + 1) * 1073741824 - 1\<bar> < 2 ^ 53" using assms by simp
  then have "f64_val (of_int ((s + 1) * 1073741824 - 1) * 2 powi (- 30))
      = of_int ((s + 1) * 1073741824 - 1) * 2 powi (- 30)"
    by (rule f64_val_dyadic) simp
  moreover have "of_int ((s + 1) * 1073741824 - 1) * 2 powi (- 30) = (of_int s + almost_one :: rat)"
    by (simp add: almost_one_def power_int_minus field_simps)
  ultimately show ?thesis by (simp only:)
qed

text \<open>The fraction \<^verbatim>\<open>float64(nsec)/1e9\<close> of the nanoseconds below a second.\<close>

lemma nsec_fraction:
  assumes "- 1000000000 < n" "n < 1000000000"
  shows "\<exists>q. f64_div (float64_of_int n) (Finite 1000000000) = Finite q
      \<and> (0 \<le> n \<longrightarrow> 0 \<le> q \<and> q \<le> almost_one)
      \<and> (n \<le> 0 \<longrightarrow> - almost_one \<le> q \<and> q \<le> 0)"
proof -
  have n: "float64_of_int n = Finite (of_int n)" using assms by (intro float64_of_int_exact) simp
  have d: "f64_div (float64_of_int n) (Finite 1000000000) = f64_round (of_int n / 1000000000)"
    by (simp add: n)
  have z: "f64_val 0 = 0" by simp
  have m: "f64_val (- almost_one) = - almost_one" by (simp add: f64_val_minus almost_one_exact)
  have hi: "of_int n / 1000000000 \<le> almost_one" and lo: "- almost_one \<le> of_int n / 1000000000"
  proof -
    have "n \<le> 999999999" "- 999999999 \<le> n" using assms by simp_all
    then have "(of_int n :: rat) \<le> 999999999" "- 999999999 \<le> (of_int n :: rat)"
      by (metis of_int_le_iff of_int_numeral, metis of_int_le_iff of_int_numeral of_int_minus)
    then show "of_int n / 1000000000 \<le> almost_one" "- almost_one \<le> of_int n / 1000000000"
      by (simp_all add: almost_one_def field_simps)
  qed
  consider (zero) "n = 0" | (pos) "0 < n" | (neg) "n < 0" by linarith
  then show ?thesis
  proof cases
    case zero
    then show ?thesis using d by (simp add: f64_round_def almost_one_def)
  next
    case pos
    then have "0 \<le> (of_int n / 1000000000 :: rat)" by simp
    from f64_round_between [OF this hi z almost_one_exact]
    obtain v where "f64_round (of_int n / 1000000000) = Finite v" "0 \<le> v" "v \<le> almost_one"
      by (auto simp: almost_one_def)
    then show ?thesis using d pos by auto
  next
    case neg
    then have "(of_int n / 1000000000 :: rat) \<le> 0" by simp
    from f64_round_between [OF lo this m z]
    obtain v where "f64_round (of_int n / 1000000000) = Finite v" "- almost_one \<le> v" "v \<le> 0"
      by (auto simp: almost_one_def)
    then show ?thesis using d neg by auto
  qed
qed

text \<open>
  The whole seconds \<^verbatim>\<open>int64(d.Seconds())\<close> of a duration: the quotient by a second for a
  duration from 0 to below \<open>2 ^ 23\<close> seconds, 0 for a negative duration above minus one
  second, and at most -1 from minus one second down.
\<close>

lemma Seconds_whole_pos:
  assumes "0 \<le> d" "d < 2 ^ 23 * Second"
  shows "float64_to_int64 (Duration_Seconds d) = d div 1000000000"
proof -
  let ?s = "d div 1000000000" and ?n = "d mod 1000000000"
  have q: "go_quot d Second = ?s" using assms(1) by (simp add: go_quot_def Second_def sgn_if)
  have r: "go_rem d Second = ?n"
    unfolding go_rem_def q by (simp add: Second_def minus_mult_div_eq_mod)
  have s: "0 \<le> ?s" "?s < 2 ^ 23"
  proof -
    have "d = 1000000000 * ?s + ?n" "0 \<le> ?n" "?n < 1000000000" by simp_all
    then show "0 \<le> ?s" "?s < 2 ^ 23" using assms unfolding Second_def by simp_all
  qed
  have fs: "float64_of_int ?s = Finite (of_int ?s)" using s by (intro float64_of_int_exact) simp
  have nb: "- 1000000000 < ?n" "?n < 1000000000" "0 \<le> ?n"
  proof -
    have "0 \<le> ?n" by simp
    then show "- 1000000000 < ?n" "0 \<le> ?n" by simp_all
    show "?n < 1000000000" by simp
  qed
  obtain fr where fr: "f64_div (float64_of_int ?n) (Finite 1000000000) = Finite fr"
    "0 \<le> fr" "fr \<le> almost_one"
    using nsec_fraction [OF nb(1,2)] nb(3) by auto
  have e: "Duration_Seconds d = f64_round (of_int ?s + fr)"
    by (simp add: Duration_Seconds_def q r fs fr(1))
  have "f64_val (of_int ?s) = of_int ?s" using s by (intro f64_val_int) simp
  moreover have "f64_val (of_int ?s + almost_one) = of_int ?s + almost_one"
    using s by (rule below_almost_one_exact)
  moreover have "(of_int ?s :: rat) < 2 ^ 23"
    using s(2) by (metis of_int_less_iff of_int_numeral of_int_power)
  moreover have "(0 :: rat) \<le> of_int ?s" using s(1) by simp
  ultimately obtain v where v: "f64_round (of_int ?s + fr) = Finite v"
    "of_int ?s \<le> v" "v \<le> of_int ?s + almost_one"
    using f64_round_between [of "of_int ?s" "of_int ?s + fr" "of_int ?s + almost_one"] fr(2,3)
    by (auto simp: almost_one_def)
  have "\<lfloor>v\<rfloor> = ?s" using v(2,3) by (simp add: floor_unique almost_one_def)
  moreover have "0 \<le> v" using v(2) s(1) by (simp add: order_trans [of 0 "of_int ?s" v])
  ultimately show ?thesis using s by (simp add: e v(1))
qed

lemma Seconds_whole_subsecond:
  assumes "- Second < d" "d < 0"
  shows "float64_to_int64 (Duration_Seconds d) = 0"
proof -
  have q: "go_quot d Second = 0" using assms by (simp add: go_quot_def Second_def)
  have r: "go_rem d Second = d" by (simp add: go_rem_def q)
  obtain fr where fr: "f64_div (float64_of_int d) (Finite 1000000000) = Finite fr"
    "- almost_one \<le> fr" "fr \<le> 0"
    using nsec_fraction [of d] assms by (auto simp: Second_def)
  have z: "float64_of_int 0 = Finite 0" by (simp add: float64_of_int_def f64_round_def)
  have e: "Duration_Seconds d = f64_round fr"
    by (simp add: Duration_Seconds_def q r z fr(1))
  have "f64_val (- almost_one) = - almost_one" by (simp add: f64_val_minus almost_one_exact)
  then obtain v where v: "f64_round fr = Finite v" "- almost_one \<le> v" "v \<le> 0"
    using f64_round_between [of "- almost_one" fr 0] fr(2,3) by (auto simp: almost_one_def)
  have "- 1 < v" using v(2) by (simp add: almost_one_def)
  then have "\<lfloor>- v\<rfloor> = 0" using v(3) by (simp add: floor_unique)
  moreover have "v = 0 \<Longrightarrow> \<lfloor>v\<rfloor> = 0" by simp
  ultimately show ?thesis using v(3) by (auto simp: e v(1))
qed

lemma Seconds_whole_neg:
  assumes "d \<le> - Second"
  shows "float64_to_int64 (Duration_Seconds d) \<le> - 1"
proof -
  have conv: "float64_to_int64 (Finite w) \<le> - 1" if "w \<le> - 1" for w
  proof -
    have "1 \<le> \<lfloor>- w\<rfloor>" using that by (simp add: le_floor_iff)
    then show ?thesis using that by (simp add: Let_def)
  qed
  have rnd: "float64_to_int64 (f64_round x) \<le> - 1" if "x \<le> - 1" for x
    using f64_round_le_minus1 [OF that] conv by auto
  let ?s = "go_quot d Second" and ?n = "go_rem d Second"
  have s: "?s \<le> - 1"
  proof -
    have "1000000000 \<le> \<bar>d\<bar>" using assms by (simp add: Second_def)
    then have "1 \<le> \<bar>d\<bar> div 1000000000" by (simp add: pos_imp_zdiv_pos_iff)
    with assms show ?thesis by (simp add: go_quot_def Second_def sgn_if)
  qed
  have n: "- 1000000000 < ?n" "?n \<le> 0"
  proof -
    have "?n = - (\<bar>d\<bar> mod 1000000000)"
      using assms by (simp add: go_rem_def go_quot_def Second_def sgn_if minus_mult_div_eq_mod [symmetric])
    moreover have "0 \<le> \<bar>d\<bar> mod 1000000000" "\<bar>d\<bar> mod 1000000000 < 1000000000" by simp_all
    ultimately show "- 1000000000 < ?n" "?n \<le> 0" by simp_all
  qed
  obtain fr where fr: "f64_div (float64_of_int ?n) (Finite 1000000000) = Finite fr" "fr \<le> 0"
    using nsec_fraction [of ?n] n by auto
  have "(of_int ?s :: rat) \<le> - 1" using s by (metis of_int_le_iff of_int_minus of_int_1)
  from f64_round_le_minus1 [OF this]
  consider (inf) "float64_of_int ?s = NInf" | (fin) w where "float64_of_int ?s = Finite w" "w \<le> - 1"
    by (auto simp: float64_of_int_def)
  then show ?thesis
  proof cases
    case inf
    then show ?thesis by (simp add: Duration_Seconds_def fr(1))
  next
    case fin
    have "Duration_Seconds d = f64_round (w + fr)"
      by (simp add: Duration_Seconds_def fr(1) fin(1))
    moreover have "w + fr \<le> - 1" using fin(2) fr(2) by simp
    ultimately show ?thesis using rnd [of "w + fr"] by simp
  qed
qed


subsection \<open>The error classifier\<close>

text \<open>
  C2. A typed API error is retryable exactly when its code is one of \<open>rate_limited\<close>,
  \<open>timeout\<close>, \<open>render_failed\<close>, \<open>internal_error\<close>, \<open>connection_error\<close>, or its HTTP
  status lies in 500..599; so an error with status 400, 401, 403 or 404 and any other
  code is not retryable.
\<close>

theorem IsRetryable_iff:
  "(IsRetryable (ApiError e) \<longleftrightarrow>
      Code e \<in> {''rate_limited'', ''timeout'', ''render_failed'', ''internal_error'',
                 ''connection_error''}
      \<or> (500 \<le> HTTPStatus e \<and> HTTPStatus e \<le> 599))
   \<and> (Error_IsRetryable e = IsRetryable (ApiError e))
   \<and> (HTTPStatus e \<in> {400, 401, 403, 404}
        \<and> Code e \<notin> {''rate_limited'', ''timeout'', ''render_failed'', ''internal_error'',
                      ''connection_error''}
        \<longrightarrow> \<not> IsRetryable (ApiError e))"
  by (auto simp: IsRetryable_def Error_IsRetryable_def Code_defs)

theorem IsRetryable_iff_witness:
  "HTTPStatus \<lparr>Message = ''nope'', HTTPStatus = 404, Code = ''not_found'', RequestID = '''',
       RetryAfter = 0\<rparr> \<in> {400, 401, 403, 404}
   \<and> \<not> IsRetryable (ApiError \<lparr>Message = ''nope'', HTTPStatus = 404, Code = ''not_found'',
       RequestID = '''', RetryAfter = 0\<rparr>)
   \<and> IsRetryable (ApiError \<lparr>Message = ''bad gateway'', HTTPStatus = 502, Code = ''bad_gateway'',
       RequestID = '''', RetryAfter = 0\<rparr>)"
  using IsRetryable_iff [of "\<lparr>Message = ''nope'', HTTPStatus = 404, Code = ''not_found'',
       RequestID = '''', RetryAfter = 0\<rparr>"]
    IsRetryable_iff [of "\<lparr>Message = ''bad gateway'', HTTPStatus = 502, Code = ''bad_gateway'',
       RequestID = '''', RetryAfter = 0\<rparr>"]
  by simp

text \<open>
  The code that \<^verbatim>\<open>errorFromResponse\<close> sets when the body supplies none, or an empty one.
\<close>

lemma errorFromResponse_inferred:
  assumes "\<forall>errMap c. map_of body ''error'' = Some (JObject errMap)
      \<and> map_of errMap ''code'' = Some (JString c) \<longrightarrow> c = ''''"
  shows "Code (errorFromResponse st body ra rid) =
     (if st = 400 then ''invalid_request'' else if st = 401 then ''unauthorized''
      else if st = 403 then ''forbidden'' else if st = 404 then ''not_found''
      else if st = 408 then ''timeout'' else if st = 422 then ''invalid_request''
      else if st = 429 then ''rate_limited'' else if st \<ge> 500 then ''internal_error''
      else '''')"
proof -
  have "(case map_of body ''error'' of
           Some (JObject errMap) \<Rightarrow>
             (case map_of errMap ''code'' of Some (JString c) \<Rightarrow> c | _ \<Rightarrow> [])
         | _ \<Rightarrow> []) = []"
    using assms by (auto split: option.splits json.splits)
  then show ?thesis
    by (simp add: errorFromResponse_def Code_defs Let_def split: option.splits json.splits)
qed

text \<open>
  C3. For every HTTP status and body map, the classifier uses the body's
  \<open>error.code\<close> when the body contains an error object with a non-empty string code
  field. When the code is still empty after reading the body (no error object, no string
  code field, or the empty string as code) it is inferred from the status alone: 400 and
  422 give \<open>invalid_request\<close>, 401 \<open>unauthorized\<close>, 403 \<open>forbidden\<close>, 404
  \<open>not_found\<close>, 408 \<open>timeout\<close>, 429 \<open>rate_limited\<close>, 500 and above
  \<open>internal_error\<close>; every other status, so each of 400..499 outside this table, leaves
  the code empty.
\<close>

theorem errorFromResponse_code:
  "(\<forall>errMap code. map_of body ''error'' = Some (JObject errMap)
        \<and> map_of errMap ''code'' = Some (JString code) \<and> code \<noteq> ''''
      \<longrightarrow> Code (errorFromResponse st body ra rid) = code)
   \<and> ((\<forall>errMap code. map_of body ''error'' = Some (JObject errMap)
          \<and> map_of errMap ''code'' = Some (JString code) \<longrightarrow> code = '''')
      \<longrightarrow> Code (errorFromResponse st body ra rid) =
         (if st = 400 then ''invalid_request'' else if st = 401 then ''unauthorized''
          else if st = 403 then ''forbidden'' else if st = 404 then ''not_found''
          else if st = 408 then ''timeout'' else if st = 422 then ''invalid_request''
          else if st = 429 then ''rate_limited'' else if st \<ge> 500 then ''internal_error''
          else ''''))"
proof -
  have "Code (errorFromResponse st body ra rid) = code"
    if "map_of body ''error'' = Some (JObject errMap)"
      "map_of errMap ''code'' = Some (JString code)" "code \<noteq> ''''" for errMap code
    using that by (simp add: errorFromResponse_def Let_def)
  then show ?thesis using errorFromResponse_inferred [of body st ra rid] by blast
qed

theorem errorFromResponse_code_witness:
  "Code (errorFromResponse 422
      [(''error'', JObject [(''message'', JString ''Screenshot rendering failed''),
                            (''code'', JString ''render_failed'')])] 0 '''') = ''render_failed''
   \<and> Code (errorFromResponse 408 [(''error'', JString ''gateway'')] 0 '''') = ''timeout''"
  using
    errorFromResponse_code [of
      "[(''error'', JObject [(''message'', JString ''Screenshot rendering failed''),
                             (''code'', JString ''render_failed'')])]" 422 0 "''''"]
    errorFromResponse_code [of "[(''error'', JString ''gateway'')]" 408 0 "''''"]
  by simp

text \<open>
  An error object whose code field is the empty string: the classifier does not keep the
  body's code, it infers \<open>not_found\<close> from the status.
\<close>

theorem errorFromResponse_empty_code_field:
  "map_of [(''error'', JObject [(''code'', JString '''')])] ''error''
      = Some (JObject [(''code'', JString '''')])
   \<and> map_of [(''code'', JString '''')] ''code'' = Some (JString '''')
   \<and> Code (errorFromResponse 404 [(''error'', JObject [(''code'', JString '''')])] 0 '''')
      = ''not_found''"
  by (simp add: errorFromResponse_def Code_defs)

text \<open>
  C7. With an empty body map, a status in the inference table (400, 401, 403,
  404, 408, 422, 429, or any status from 500 up) gives an error whose code is non-empty
  and is the table's code for that status; any other status below 500, for instance 402
  or 409, gives an error whose code is empty.
\<close>

theorem errorFromResponse_empty_body:
  "(st \<in> {400, 401, 403, 404, 408, 422, 429} \<or> 500 \<le> st \<longrightarrow>
      Code (errorFromResponse st [] ra rid) \<noteq> ''''
      \<and> Code (errorFromResponse st [] ra rid) =
         (if st = 400 \<or> st = 422 then ''invalid_request'' else if st = 401 then ''unauthorized''
          else if st = 403 then ''forbidden'' else if st = 404 then ''not_found''
          else if st = 408 then ''timeout'' else if st = 429 then ''rate_limited''
          else ''internal_error''))
   \<and> (st \<notin> {400, 401, 403, 404, 408, 422, 429} \<and> st < 500 \<longrightarrow>
      Code (errorFromResponse st [] ra rid) = '''')"
  using errorFromResponse_inferred [of "[]" st ra rid] by auto

theorem errorFromResponse_empty_body_witness:
  "Code (errorFromResponse 404 [] 0 '''') = ''not_found''
   \<and> Code (errorFromResponse 429 [] 30 '''') = ''rate_limited''
   \<and> Code (errorFromResponse 500 [] 0 '''') = ''internal_error''
   \<and> Code (errorFromResponse 409 [] 0 '''') = ''''"
  using errorFromResponse_empty_body [of 404 0 "''''"]
    errorFromResponse_empty_body [of 429 30 "''''"]
    errorFromResponse_empty_body [of 500 0 "''''"]
    errorFromResponse_empty_body [of 409 0 "''''"]
  by simp

text \<open>Status 402 with an empty body: the status is at least 400 and the code is empty.\<close>

theorem errorFromResponse_402_no_code:
  "(402 :: int) \<ge> 400 \<and> Code (errorFromResponse 402 [] 0 '''') = ''''"
  by (simp add: errorFromResponse_def Code_defs)

subsection \<open>The Retry-After header\<close>

lemma digit_of_digit: "c \<in> set ''0123456789'' \<Longrightarrow> digit_of c = Some (of_char c - 48)"
  by (auto simp: digit_of_def)

lemma parse_digits_spec:
  "\<forall>c\<in>set ds. c \<in> set ''0123456789'' \<Longrightarrow>
     parse_digits acc ds = Some (acc * 10 ^ length ds + spec_value ds)"
proof (induction ds arbitrary: acc)
  case Nil
  then show ?case by simp
next
  case (Cons c cs)
  then have d: "digit_of c = Some (of_char c - 48)" by (intro digit_of_digit) simp
  have "parse_digits (acc * 10 + (of_char c - 48)) cs
      = Some ((acc * 10 + (of_char c - 48)) * 10 ^ length cs + spec_value cs)"
    using Cons.prems by (intro Cons.IH) simp
  then show ?case by (simp add: d algebra_simps)
qed

lemma ParseUint_spec: "spec_digits ds \<Longrightarrow> ParseUint ds = Some (spec_value ds)"
  using parse_digits_spec [of ds 0] by (simp add: ParseUint_def spec_digits_def)

lemma ParseUint_not_digits: "\<not> spec_digits ds \<Longrightarrow> ParseUint ds = None"
proof -
  assume n: "\<not> spec_digits ds"
  show ?thesis
  proof (cases "ds = []")
    case True
    then show ?thesis by (simp add: ParseUint_def)
  next
    case False
    with n obtain c where c: "c \<in> set ds" "c \<notin> set ''0123456789''"
      unfolding spec_digits_def by blast
    then have "digit_of c = None" using digit_of_Some [of c] by blast
    then have "parse_digits 0 ds = None" using c(1) by (intro parse_digits_None) blast
    then show ?thesis using False by (simp add: ParseUint_def)
  qed
qed

lemma spec_digits_no_sign:
  "spec_digits (c # cs) \<Longrightarrow> c \<noteq> CHR ''+'' \<and> c \<noteq> CHR ''-''"
  by (auto simp: spec_digits_def)

lemma ParseInt_digits:
  assumes "spec_digits ds"
  shows "ParseInt ds = (if spec_value ds < 2 ^ 63 then Some (int (spec_value ds)) else None)"
proof (cases ds)
  case Nil
  then show ?thesis using assms by (simp add: spec_digits_def)
next
  case (Cons c cs)
  then have "c \<noteq> CHR ''+''" "c \<noteq> CHR ''-''" using assms spec_digits_no_sign by auto
  then show ?thesis
    using ParseUint_spec [OF assms] Cons by (simp add: ParseInt_def Let_def not_less)
qed

lemma ParseInt_plus:
  assumes "spec_digits ds"
  shows "ParseInt (CHR ''+'' # ds)
     = (if spec_value ds < 2 ^ 63 then Some (int (spec_value ds)) else None)"
  using ParseUint_spec [OF assms] by (simp add: ParseInt_def Let_def not_less)

lemma ParseInt_minus:
  assumes "spec_digits ds"
  shows "ParseInt (CHR ''-'' # ds)
     = (if spec_value ds \<le> 2 ^ 63 then Some (- int (spec_value ds)) else None)"
  using ParseUint_spec [OF assms] by (simp add: ParseInt_def Let_def not_le)

lemma ParseInt_not_numeral:
  assumes "\<not> spec_digits v"
    and "\<not> (\<exists>ds. spec_digits ds \<and> (v = CHR ''+'' # ds \<or> v = CHR ''-'' # ds))"
  shows "ParseInt v = None"
proof (cases v)
  case Nil
  then show ?thesis by (simp add: ParseInt_def)
next
  case (Cons c cs)
  show ?thesis
  proof (cases "c = CHR ''+'' \<or> c = CHR ''-''")
    case True
    then have "\<not> spec_digits cs" using assms(2) Cons by auto
    then have "ParseUint cs = None" by (rule ParseUint_not_digits)
    then show ?thesis using True Cons by (simp add: ParseInt_def Let_def)
  next
    case False
    have "ParseUint v = None" using assms(1) by (rule ParseUint_not_digits)
    then show ?thesis using False Cons by (simp add: ParseInt_def Let_def)
  qed
qed

text \<open>
  C8. \<^verbatim>\<open>parseRetryAfter\<close> returns an integer for every header value and never an
  error. The empty string and every non-numeric string, that is every string that is not
  a string of decimal digits with at most one sign in front, yield 0. A decimal numeral
  yields its value, \<open>30\<close> for the numeral \<open>30\<close>, also with a plus sign in front; a numeral
  with a minus sign yields its negative value, \<open>-5\<close> for the numeral \<open>-5\<close>; a numeral
  whose value does not fit 64 bits yields 0. The result is non-negative for every value
  that does not start with a minus sign.
\<close>

theorem parseRetryAfter_values:
  "parseRetryAfter '''' = 0
   \<and> (spec_digits ds \<longrightarrow>
        parseRetryAfter ds = (if spec_value ds < 2 ^ 63 then int (spec_value ds) else 0)
        \<and> parseRetryAfter (CHR ''+'' # ds)
            = (if spec_value ds < 2 ^ 63 then int (spec_value ds) else 0)
        \<and> parseRetryAfter (CHR ''-'' # ds)
            = (if spec_value ds \<le> 2 ^ 63 then - int (spec_value ds) else 0))
   \<and> (\<not> spec_digits v
        \<and> \<not> (\<exists>ds. spec_digits ds \<and> (v = CHR ''+'' # ds \<or> v = CHR ''-'' # ds))
      \<longrightarrow> parseRetryAfter v = 0)
   \<and> parseRetryAfter ''abc'' = 0
   \<and> parseRetryAfter ''30'' = 30
   \<and> parseRetryAfter ''-5'' = - 5
   \<and> (take 1 v \<noteq> ''-'' \<longrightarrow> 0 \<le> parseRetryAfter v)"
proof -
  have n: "parseRetryAfter ds = (if spec_value ds < 2 ^ 63 then int (spec_value ds) else 0)
      \<and> parseRetryAfter (CHR ''+'' # ds)
          = (if spec_value ds < 2 ^ 63 then int (spec_value ds) else 0)
      \<and> parseRetryAfter (CHR ''-'' # ds)
          = (if spec_value ds \<le> 2 ^ 63 then - int (spec_value ds) else 0)"
    if "spec_digits ds"
    using that ParseInt_digits [OF that] ParseInt_plus [OF that] ParseInt_minus [OF that]
    by (simp add: parseRetryAfter_def Atoi_def spec_digits_def)
  have a: "parseRetryAfter v = 0"
    if "\<not> spec_digits v"
      "\<not> (\<exists>ds. spec_digits ds \<and> (v = CHR ''+'' # ds \<or> v = CHR ''-'' # ds))"
    using ParseInt_not_numeral [OF that] by (simp add: parseRetryAfter_def Atoi_def)
  have b: "0 \<le> parseRetryAfter v" if "take 1 v \<noteq> ''-''"
    using ParseInt_nonneg [of v] that
    by (auto simp: parseRetryAfter_def Atoi_def split: option.splits)
  have d: "parseRetryAfter ''abc'' = 0" "parseRetryAfter ''30'' = 30"
    "parseRetryAfter ''-5'' = - 5"
    by (simp_all add: parseRetryAfter_def Atoi_def ParseInt_def ParseUint_def digit_of_def)
  show ?thesis using n a b d by (simp add: parseRetryAfter_def)
qed

theorem parseRetryAfter_values_witness:
  "parseRetryAfter ''300'' = 300
   \<and> parseRetryAfter ''+007'' = 7
   \<and> parseRetryAfter ''-120'' = - 120
   \<and> parseRetryAfter ''1-2'' = 0
   \<and> parseRetryAfter ''+'' = 0
   \<and> parseRetryAfter ''-'' = 0
   \<and> parseRetryAfter ''+-5'' = 0
   \<and> parseRetryAfter ''99999999999999999999'' = 0
   \<and> 0 \<le> parseRetryAfter ''+7''"
proof -
  have s: "spec_digits ''300''" "spec_digits ''007''" "spec_digits ''120''"
    "spec_digits ''99999999999999999999''"
    by (simp_all add: spec_digits_def)
  have n: "\<not> spec_digits ''1-2''" "\<not> spec_digits ''+''" "\<not> spec_digits ''-''"
    "\<not> spec_digits ''+-5''" "\<not> spec_digits ''-5''" "\<not> spec_digits ''-2''" "\<not> spec_digits ''''"
    by (simp_all add: spec_digits_def)
  have f: "\<not> (\<exists>ds. spec_digits ds \<and> (''1-2'' = CHR ''+'' # ds \<or> ''1-2'' = CHR ''-'' # ds))"
    "\<not> (\<exists>ds. spec_digits ds \<and> (''+'' = CHR ''+'' # ds \<or> ''+'' = CHR ''-'' # ds))"
    "\<not> (\<exists>ds. spec_digits ds \<and> (''-'' = CHR ''+'' # ds \<or> ''-'' = CHR ''-'' # ds))"
    "\<not> (\<exists>ds. spec_digits ds \<and> (''+-5'' = CHR ''+'' # ds \<or> ''+-5'' = CHR ''-'' # ds))"
    using n by auto
  have v: "spec_value ''300'' = 300" "spec_value ''007'' = 7" "spec_value ''120'' = 120"
    "spec_value ''99999999999999999999'' = 99999999999999999999"
    by simp_all
  show ?thesis
    using parseRetryAfter_values [of "''300''" "''1-2''"]
      parseRetryAfter_values [of "''007''" "''+''"]
      parseRetryAfter_values [of "''120''" "''-''"]
      parseRetryAfter_values [of "''99999999999999999999''" "''+-5''"]
      parseRetryAfter_values [of "''300''" "''+7''"]
      s n(1-4) f v
    by simp
qed

text \<open>
  A numeral with a minus sign is parsed to its negative value, and the numeral of \<open>2 ^ 63\<close>,
  which does not fit 64 bits, to 0.
\<close>

theorem parseRetryAfter_negative:
  "parseRetryAfter ''-5'' = - 5 \<and> \<not> 0 \<le> parseRetryAfter ''-5''
   \<and> parseRetryAfter ''9223372036854775808'' = 0"
  by (simp add: parseRetryAfter_def Atoi_def ParseInt_def ParseUint_def digit_of_def)

subsection \<open>The webhook verifier\<close>

lemma Seconds_DefaultTolerance: "float64_to_int64 (Duration_Seconds DefaultTolerance) = 300"
  using Seconds_whole_pos [of DefaultTolerance] by (simp add: DefaultTolerance_def Second_def)

lemma VerifyWebhook_Some:
  assumes "payload \<noteq> ''''" "signature \<noteq> ''''" "timestamp \<noteq> ''''" "secret \<noteq> ''''"
    and "ParseInt timestamp = Some ts"
  shows "VerifyWebhook now payload signature timestamp secret tolerance \<longleftrightarrow>
     webhook_age now ts
       \<le> float64_to_int64 (Duration_Seconds (if tolerance = 0 then DefaultTolerance else tolerance))
     \<and> signature = ''sha256='' @ hex_EncodeToString
         (hmac_sha256 (bytes secret) (bytes (timestamp @ ''.'' @ payload)))"
  using assms
  by (auto simp: VerifyWebhook_def Let_def ConstantTimeCompare_def)

text \<open>
  The age in terms of the exact difference \<open>now - ts\<close>: its absolute value while the
  difference fits 64 bits, the most negative \<^verbatim>\<open>int64\<close> when the difference is \<open>2 ^ 63\<close>.
\<close>

lemma webhook_age_cases:
  assumes "0 \<le> now" "now < 2 ^ 63" "- (2 ^ 63) \<le> ts" "ts < 2 ^ 63"
  shows "webhook_age now ts =
     (if now - ts < 2 ^ 63 then \<bar>now - ts\<bar>
      else if now - ts = 2 ^ 63 then - (2 ^ 63)
      else 2 ^ 64 - (now - ts))"
proof -
  consider (a) "now - ts < 0" | (b) "0 \<le> now - ts" "now - ts < 2 ^ 63"
    | (c) "now - ts = 2 ^ 63" | (d) "2 ^ 63 < now - ts"
    by linarith
  then show ?thesis
  proof cases
    case a
    then have "int64 (now - ts) = now - ts" using assms by (intro int64_id) simp_all
    moreover have "int64 (- (now - ts)) = - (now - ts)"
      using assms a by (intro int64_id) simp_all
    ultimately show ?thesis using a by (simp add: webhook_age_def)
  next
    case b
    then have "int64 (now - ts) = now - ts" using assms by (intro int64_id) simp_all
    then show ?thesis using b by (simp add: webhook_age_def)
  next
    case c
    have "int64 (2 ^ 63) = - (2 ^ 63)" by (simp add: int64_def)
    then show ?thesis using c by (simp add: webhook_age_def)
  next
    case d
    then have e: "int64 (now - ts) = now - ts - 2 ^ 64"
      using assms by (intro int64_wrap_hi) simp_all
    have "int64 (- (now - ts - 2 ^ 64)) = - (now - ts - 2 ^ 64)"
      using assms d by (intro int64_id) simp_all
    with e show ?thesis using d assms by (simp add: webhook_age_def)
  qed
qed

lemma webhook_age_same: "webhook_age now now = 0"
  by (simp add: webhook_age_def int64_def)

text \<open>
  What \<^verbatim>\<open>VerifyWebhook\<close> decides for non-empty arguments, a positive tolerance below
  \<open>2 ^ 23\<close> seconds (97 days, where the whole seconds of the tolerance are computed without
  rounding error) and a clock between 0 and \<open>2 ^ 62\<close>: the timestamp parses, the signature
  is the expected one, and either the timestamp is within the tolerance or it lies exactly
  \<open>2 ^ 63\<close> seconds before the clock.
\<close>

lemma VerifyWebhook_iff:
  assumes ne: "payload \<noteq> ''''" "signature \<noteq> ''''" "timestamp \<noteq> ''''" "secret \<noteq> ''''"
    and tol: "0 < tolerance" "tolerance < 2 ^ 23 * Second"
    and now: "0 \<le> now" "now < 2 ^ 62"
  shows "VerifyWebhook now payload signature timestamp secret tolerance \<longleftrightarrow>
     (\<exists>ts. ParseInt timestamp = Some ts
        \<and> (\<bar>now - ts\<bar> * Second \<le> tolerance \<or> now - ts = 2 ^ 63)
        \<and> signature = ''sha256='' @ hex_EncodeToString
            (hmac_sha256 (bytes secret) (bytes (timestamp @ ''.'' @ payload))))"
proof (cases "ParseInt timestamp")
  case None
  then show ?thesis using ne by (simp add: VerifyWebhook_def)
next
  case (Some ts)
  note r = ParseInt_range [OF Some]
  have q: "float64_to_int64
        (Duration_Seconds (if tolerance = 0 then DefaultTolerance else tolerance)) =
      tolerance div 1000000000"
    using tol Seconds_whole_pos [of tolerance] by simp
  have q0: "0 \<le> tolerance div 1000000000"
    using tol by (simp add: pos_imp_zdiv_nonneg_iff)
  have q1: "tolerance div 1000000000 < 2 ^ 62"
  proof -
    have "tolerance div 1000000000 \<le> (2 ^ 23 * Second) div 1000000000"
      using tol by (intro zdiv_mono1) simp_all
    then show ?thesis by (simp add: Second_def)
  qed
  have ag: "webhook_age now ts =
     (if now - ts < 2 ^ 63 then \<bar>now - ts\<bar>
      else if now - ts = 2 ^ 63 then - (2 ^ 63)
      else 2 ^ 64 - (now - ts))"
    using now r by (intro webhook_age_cases) simp_all
  have "webhook_age now ts \<le> tolerance div 1000000000 \<longleftrightarrow>
      (\<bar>now - ts\<bar> * Second \<le> tolerance \<or> now - ts = 2 ^ 63)"
  proof -
    consider (a) "now - ts < 2 ^ 63" | (c) "now - ts = 2 ^ 63" | (d) "2 ^ 63 < now - ts"
      by linarith
    then show ?thesis
    proof cases
      case a
      then show ?thesis using ag by (simp add: le_div_Second)
    next
      case c
      then show ?thesis using ag q0 by simp
    next
      case d
      have "2 ^ 62 \<le> webhook_age now ts" using d ag now r by simp
      moreover have "\<not> \<bar>now - ts\<bar> * Second \<le> tolerance"
        using d tol by (simp add: Second_def)
      ultimately show ?thesis using q1 d by simp
    qed
  qed
  then show ?thesis using VerifyWebhook_Some [OF ne Some, of now tolerance] q Some by simp
qed

text \<open>
  C1. For non-empty arguments and a positive tolerance, \<^verbatim>\<open>VerifyWebhook\<close> is to return
  true exactly when the timestamp parses to \<open>ts\<close> with \<open>|now - ts| \<le> tolerance\<close> and the
  signature is the expected one. The code departs from this at one timestamp: at the clock
  reading 1700000000 the timestamp \<open>-9223372035154775808\<close> parses, lies \<open>2 ^ 63\<close>
  seconds in the past, which is more than the default tolerance of 300 seconds, and is
  accepted with its correct signature. Its age wraps to the most negative \<^verbatim>\<open>int64\<close>, whose
  negation wraps to itself, and a negative age exceeds no tolerance.
\<close>

theorem VerifyWebhook_wrapped_age:
  "ParseInt ''-9223372035154775808'' = Some (1700000000 - 2 ^ 63)
   \<and> \<not> \<bar>1700000000 - (1700000000 - 2 ^ 63)\<bar> * Second \<le> DefaultTolerance
   \<and> webhook_age 1700000000 (1700000000 - 2 ^ 63) = - (2 ^ 63)
   \<and> VerifyWebhook 1700000000 ''p''
       (''sha256='' @ hex_EncodeToString
          (hmac_sha256 (bytes ''s'') (bytes (''-9223372035154775808'' @ ''.'' @ ''p''))))
       ''-9223372035154775808'' ''s'' DefaultTolerance"
proof -
  have p: "ParseInt ''-9223372035154775808'' = Some (1700000000 - 2 ^ 63)"
    by (simp add: ParseInt_def ParseUint_def digit_of_def)
  have t: "\<not> \<bar>1700000000 - (1700000000 - 2 ^ 63)\<bar> * Second \<le> DefaultTolerance"
    by (simp add: DefaultTolerance_def Second_def)
  have a: "webhook_age 1700000000 (1700000000 - 2 ^ 63) = - (2 ^ 63)"
    by (simp add: webhook_age_def int64_def)
  have n: "DefaultTolerance \<noteq> 0" by (simp add: DefaultTolerance_def Second_def)
  have "VerifyWebhook 1700000000 ''p''
       (''sha256='' @ hex_EncodeToString
          (hmac_sha256 (bytes ''s'') (bytes (''-9223372035154775808'' @ ''.'' @ ''p''))))
       ''-9223372035154775808'' ''s'' DefaultTolerance"
    unfolding VerifyWebhook_def p using a n
    by (simp add: Seconds_DefaultTolerance ConstantTimeCompare_def)
  with p t a show ?thesis by blast
qed

text \<open>
  C10. With tolerance exactly 0, \<^verbatim>\<open>VerifyWebhook\<close> substitutes the default of 300
  seconds: it decides as it does for a tolerance of 300 seconds, so it does not reject all
  timestamps. A tolerance of minus one second or below rejects every timestamp, when the
  clock is not negative and the timestamp is not the one \<open>2 ^ 63\<close> seconds before the
  clock. A negative tolerance above minus one second has 0 whole seconds and accepts a
  correctly signed timestamp equal to the clock.
\<close>

theorem VerifyWebhook_tolerance:
  "VerifyWebhook now payload signature timestamp secret 0 =
     VerifyWebhook now payload signature timestamp secret (300 * Second)
   \<and> (tolerance \<le> - Second \<and> 0 \<le> now \<and> now < 2 ^ 63
        \<and> ParseInt timestamp \<noteq> Some (now - 2 ^ 63)
      \<longrightarrow> \<not> VerifyWebhook now payload signature timestamp secret tolerance)
   \<and> (- Second < tolerance \<and> tolerance < 0
        \<and> payload \<noteq> '''' \<and> timestamp \<noteq> '''' \<and> secret \<noteq> ''''
        \<and> ParseInt timestamp = Some now
      \<longrightarrow> VerifyWebhook now payload
            (''sha256='' @ hex_EncodeToString
               (hmac_sha256 (bytes secret) (bytes (timestamp @ ''.'' @ payload))))
            timestamp secret tolerance)"
proof -
  have s: "VerifyWebhook now payload
       (''sha256='' @ hex_EncodeToString
          (hmac_sha256 (bytes secret) (bytes (timestamp @ ''.'' @ payload))))
       timestamp secret tolerance"
    if "- Second < tolerance" "tolerance < 0"
      and "payload \<noteq> ''''" "timestamp \<noteq> ''''" "secret \<noteq> ''''"
      and "ParseInt timestamp = Some now"
    using that
    by (simp add: VerifyWebhook_def Seconds_whole_subsecond
        webhook_age_same ConstantTimeCompare_def)
  have z: "VerifyWebhook now payload signature timestamp secret 0 =
     VerifyWebhook now payload signature timestamp secret (300 * Second)"
    by (simp add: VerifyWebhook_def DefaultTolerance_def Second_def)
  have n: "\<not> VerifyWebhook now payload signature timestamp secret tolerance"
    if t: "tolerance \<le> - Second" and now: "0 \<le> now" "now < 2 ^ 63"
      and w: "ParseInt timestamp \<noteq> Some (now - 2 ^ 63)"
  proof (cases "ParseInt timestamp")
    case None
    then show ?thesis by (simp add: VerifyWebhook_def)
  next
    case (Some ts)
    note r = ParseInt_range [OF Some]
    have "now - ts \<noteq> 2 ^ 63" using w Some by auto
    then have "0 \<le> webhook_age now ts"
      using webhook_age_cases [of now ts] now r by (auto split: if_splits)
    moreover have "float64_to_int64 (Duration_Seconds tolerance) \<le> - 1"
      using t by (rule Seconds_whole_neg)
    moreover have "tolerance \<noteq> 0" using t by (auto simp: Second_def)
    ultimately show ?thesis
      using Some by (simp add: VerifyWebhook_def)
  qed
  show ?thesis using z n s by blast
qed

theorem VerifyWebhook_tolerance_witness:
  "VerifyWebhook 1700000100 ''p''
       (''sha256='' @ hex_EncodeToString (hmac_sha256 (bytes ''s'') (bytes ''1700000000.p'')))
       ''1700000000'' ''s'' 0
   \<and> \<not> VerifyWebhook 1700000000 ''p''
       (''sha256='' @ hex_EncodeToString (hmac_sha256 (bytes ''s'') (bytes ''1700000000.p'')))
       ''1700000000'' ''s'' (- Second)"
proof -
  have p: "ParseInt ''1700000000'' = Some 1700000000"
    by (simp add: ParseInt_def ParseUint_def digit_of_def)
  have q: "float64_to_int64 (Duration_Seconds (300 * Second)) = 300"
    using Seconds_DefaultTolerance by (simp add: DefaultTolerance_def)
  have n: "300 * Second \<noteq> 0" by (simp add: Second_def)
  have a: "VerifyWebhook 1700000100 ''p''
       (''sha256='' @ hex_EncodeToString (hmac_sha256 (bytes ''s'') (bytes ''1700000000.p'')))
       ''1700000000'' ''s'' (300 * Second)"
    unfolding VerifyWebhook_def p using n
    by (simp add: q webhook_age_def int64_def ConstantTimeCompare_def)
  have h: "- Second \<le> - Second \<and> (0::int) \<le> 1700000000 \<and> (1700000000::int) < 2 ^ 63
      \<and> ParseInt ''1700000000'' \<noteq> Some (1700000000 - 2 ^ 63)"
    by (simp add: p)
  show ?thesis
    using a h
      VerifyWebhook_tolerance [of 1700000100 "''p''"
        "''sha256='' @ hex_EncodeToString (hmac_sha256 (bytes ''s'') (bytes ''1700000000.p''))"
        "''1700000000''" "''s''"]
      VerifyWebhook_tolerance [of 1700000000 "''p''"
        "''sha256='' @ hex_EncodeToString (hmac_sha256 (bytes ''s'') (bytes ''1700000000.p''))"
        "''1700000000''" "''s''" "- Second"]
    by blast
qed

text \<open>
  A tolerance of minus one nanosecond has 0 whole seconds: a timestamp equal to the clock
  has age 0 and is accepted with its correct signature.
\<close>

theorem VerifyWebhook_negative_tolerance_accepts:
  "(- 1 :: int) < 0
   \<and> VerifyWebhook 1700000000 ''p''
       (''sha256='' @ hex_EncodeToString
          (hmac_sha256 (bytes ''s'') (bytes (''1700000000'' @ ''.'' @ ''p''))))
       ''1700000000'' ''s'' (- 1)"
proof -
  have p: "ParseInt ''1700000000'' = Some 1700000000"
    by (simp add: ParseInt_def ParseUint_def digit_of_def)
  have q: "float64_to_int64 (Duration_Seconds (- 1)) = 0"
    using Seconds_whole_subsecond [of "- 1"] by (simp add: Second_def)
  have "VerifyWebhook 1700000000 ''p''
       (''sha256='' @ hex_EncodeToString
          (hmac_sha256 (bytes ''s'') (bytes (''1700000000'' @ ''.'' @ ''p''))))
       ''1700000000'' ''s'' (- 1)"
    unfolding VerifyWebhook_def p
    by (simp add: q webhook_age_def int64_def ConstantTimeCompare_def)
  then show ?thesis by simp
qed

subsection \<open>The retry loop\<close>

text \<open>
  The loop started at attempt \<open>a\<close> stops at the first attempt \<open>k\<close> that succeeds, fails
  with an error that is not retryable, or is the last one allowed; every attempt before
  it failed with a retryable error.
\<close>

lemma retry_loop_stops:
  assumes "0 \<le> a" "a \<le> k" "k \<le> maxRetries c"
    and "\<forall>j. a \<le> j \<and> j < k \<longrightarrow>
      (\<exists>e. doRequest (nat j) = Failure (ApiError e) \<and> Error_IsRetryable e)"
    and "\<forall>e. doRequest (nat k) = Failure e \<longrightarrow> \<not> IsRetryable e \<or> k = maxRetries c"
  shows "retry_loop c doRequest rnd a le sl =
     \<lparr>ret_resp = (case doRequest (nat k) of Success r \<Rightarrow> Some r | Failure e \<Rightarrow> None),
      ret_err = (case doRequest (nat k) of Success r \<Rightarrow> None | Failure e \<Rightarrow> Some e),
      requests = nat k + 1,
      sleeps = sleeps (retry_loop c doRequest rnd a le sl)\<rparr>"
  using assms
proof (induction "nat (k - a)" arbitrary: a le sl)
  case 0
  then have "a = k" by simp
  with 0 show ?case
    by (subst (1 2) retry_loop.simps)
       (auto simp: IsRetryable_def split: outcome.splits go_error.splits)
next
  case (Suc n)
  then have lt: "a < k" by simp
  with Suc.prems obtain e where e: "doRequest (nat a) = Failure (ApiError e)" "Error_IsRetryable e"
    by force
  have n: "n = nat (k - (a + 1))" using Suc.hyps(2) by simp
  have step: "retry_loop c doRequest rnd a le sl =
      retry_loop c doRequest rnd (a + 1) (Some (ApiError e))
        (sl @ [calculateDelay c e a (rnd (nat a))])"
    using e lt Suc.prems(3) by (subst retry_loop.simps) simp
  have "retry_loop c doRequest rnd (a + 1) (Some (ApiError e))
          (sl @ [calculateDelay c e a (rnd (nat a))]) =
     \<lparr>ret_resp = (case doRequest (nat k) of Success r \<Rightarrow> Some r | Failure e \<Rightarrow> None),
      ret_err = (case doRequest (nat k) of Success r \<Rightarrow> None | Failure e \<Rightarrow> Some e),
      requests = nat k + 1,
      sleeps = sleeps (retry_loop c doRequest rnd (a + 1) (Some (ApiError e))
                (sl @ [calculateDelay c e a (rnd (nat a))]))\<rparr>"
    using Suc.prems lt by (intro Suc.hyps(1) [OF n]) auto
  then show ?case by (simp add: step)
qed

lemma retry_loop_requests_le:
  "0 \<le> a \<Longrightarrow> int (requests (retry_loop c doRequest rnd a le sl)) \<le> max a (maxRetries c + 1)"
proof (induction c doRequest rnd a le sl rule: retry_loop.induct)
  case (1 c doRequest rnd attempt lastErr slept)
  show ?case
  proof (cases "attempt \<le> maxRetries c")
    case False
    then show ?thesis using 1(2) by (subst retry_loop.simps) simp
  next
    case True
    show ?thesis
    proof (cases "doRequest (nat attempt)")
      case (Success r)
      then show ?thesis using True 1(2) by (subst retry_loop.simps) simp
    next
      case (Failure e)
      show ?thesis
      proof (cases e)
        case (OtherError m)
        then show ?thesis using True Failure 1(2) by (subst retry_loop.simps) simp
      next
        case (ApiError apiErr)
        show ?thesis
        proof (cases "\<not> Error_IsRetryable apiErr \<or> attempt \<ge> maxRetries c")
          case stop: True
          then show ?thesis
            using True Failure ApiError 1(2) by (subst retry_loop.simps) auto
        next
          case go: False
          have "int (requests (retry_loop c doRequest rnd (attempt + 1) (Some e)
                  (slept @ [calculateDelay c apiErr attempt (rnd (nat attempt))])))
               \<le> max (attempt + 1) (maxRetries c + 1)"
            using 1(1) [OF True Failure ApiError go] 1(2) by simp
          then show ?thesis
            using True Failure ApiError go by (subst retry_loop.simps) auto
        qed
      qed
    qed
  qed
qed

text \<open>
  C4. For every call through the retry loop with \<open>max_retries \<ge> 0\<close>: if an attempt
  succeeds after retryable failures, within the allowed attempts, the transport returns
  that result at once; if the first error is not a typed API error, or is a typed API
  error that is not retryable, it returns that error after exactly 1 attempt; in all cases
  it makes at most \<open>max_retries + 1\<close> attempts; and with \<open>max_retries = 3\<close> and a server
  that fails retryably twice and then succeeds, exactly 3 attempts are made and the
  success payload is returned.
\<close>

theorem doWithRetry_attempts:
  fixes c :: httpClient and doRequest :: "nat \<Rightarrow> 'r outcome" and rnd :: "nat \<Rightarrow> float64"
  defines "run \<equiv> doWithRetry c doRequest rnd"
  assumes nonneg: "0 \<le> maxRetries c"
  shows
    "(\<forall>k r. int k \<le> maxRetries c
          \<and> (\<forall>j<k. \<exists>e. doRequest j = Failure (ApiError e) \<and> Error_IsRetryable e)
          \<and> doRequest k = Success r
        \<longrightarrow> ret_resp run = Some r \<and> ret_err run = None \<and> requests run = k + 1)
     \<and> (\<forall>m. doRequest 0 = Failure (OtherError m)
        \<longrightarrow> ret_resp run = None \<and> ret_err run = Some (OtherError m) \<and> requests run = 1)
     \<and> (\<forall>e. doRequest 0 = Failure (ApiError e) \<and> \<not> Error_IsRetryable e
        \<longrightarrow> ret_resp run = None \<and> ret_err run = Some (ApiError e) \<and> requests run = 1)
     \<and> int (requests run) \<le> maxRetries c + 1
     \<and> (\<forall>e0 e1 payload. maxRetries c = 3
          \<and> doRequest 0 = Failure (ApiError e0) \<and> Error_IsRetryable e0
          \<and> doRequest 1 = Failure (ApiError e1) \<and> Error_IsRetryable e1
          \<and> doRequest 2 = Success payload
        \<longrightarrow> requests run = 3 \<and> ret_resp run = Some payload \<and> ret_err run = None)"
proof -
  have stop: "ret_resp run = (case doRequest k of Success r \<Rightarrow> Some r | Failure e \<Rightarrow> None)
      \<and> ret_err run = (case doRequest k of Success r \<Rightarrow> None | Failure e \<Rightarrow> Some e)
      \<and> requests run = k + 1"
    if "int k \<le> maxRetries c"
      and "\<forall>j<k. \<exists>e. doRequest j = Failure (ApiError e) \<and> Error_IsRetryable e"
      and "\<forall>e. doRequest k = Failure e \<longrightarrow> \<not> IsRetryable e \<or> int k = maxRetries c" for k
  proof -
    have "\<forall>j. 0 \<le> j \<and> j < int k \<longrightarrow>
        (\<exists>e. doRequest (nat j) = Failure (ApiError e) \<and> Error_IsRetryable e)"
      using that(2) by (auto simp: nat_less_iff)
    then have "retry_loop c doRequest rnd 0 None [] =
       \<lparr>ret_resp = (case doRequest (nat (int k)) of Success r \<Rightarrow> Some r | Failure e \<Rightarrow> None),
        ret_err = (case doRequest (nat (int k)) of Success r \<Rightarrow> None | Failure e \<Rightarrow> Some e),
        requests = nat (int k) + 1,
        sleeps = sleeps (retry_loop c doRequest rnd 0 None [])\<rparr>"
      using that(1,3) by (intro retry_loop_stops) auto
    then show ?thesis
      unfolding run_def doWithRetry_def by (metis nat_int retry_run.select_convs(1,2,3))
  qed
  have a: "ret_resp run = Some r \<and> ret_err run = None \<and> requests run = k + 1"
    if "int k \<le> maxRetries c"
      and "\<forall>j<k. \<exists>e. doRequest j = Failure (ApiError e) \<and> Error_IsRetryable e"
      and "doRequest k = Success r" for k r
    using stop [of k] that by simp
  have b: "ret_resp run = None \<and> ret_err run = Some e \<and> requests run = 1"
    if "doRequest 0 = Failure e" "\<not> IsRetryable e" for e
    using stop [of 0] that nonneg by simp
  have c: "int (requests run) \<le> maxRetries c + 1"
    using retry_loop_requests_le [of 0 c doRequest rnd None "[]"] nonneg
    by (simp add: run_def doWithRetry_def)
  have d: "requests run = 3 \<and> ret_resp run = Some payload \<and> ret_err run = None"
    if "maxRetries c = 3" "doRequest 0 = Failure (ApiError e0)" "Error_IsRetryable e0"
      "doRequest 1 = Failure (ApiError e1)" "Error_IsRetryable e1" "doRequest 2 = Success payload"
    for e0 e1 payload
  proof -
    have "\<forall>j<2. \<exists>e. doRequest j = Failure (ApiError e) \<and> Error_IsRetryable e"
      using that by (auto simp: less_Suc_eq numeral_2_eq_2)
    then show ?thesis using a [of 2 payload] that by simp
  qed
  show ?thesis
    using a b c d by (simp add: IsRetryable_def) blast
qed

theorem doWithRetry_attempts_witness:
  "requests (doWithRetry (test_client 3) server_fails_twice no_jitter) = 3
   \<and> ret_resp (doWithRetry (test_client 3) server_fails_twice no_jitter) = Some ''ok''
   \<and> requests (doWithRetry (test_client 3) server_unauthorized no_jitter) = 1
   \<and> ret_err (doWithRetry (test_client 3) server_unauthorized no_jitter)
       = Some (ApiError unauthorized_401)"
proof -
  have h: "0 \<le> maxRetries (test_client 3)" "maxRetries (test_client 3) = 3"
    by (simp_all add: test_client_def newHTTPClient_def)
  have r: "Error_IsRetryable internal_error_500" "\<not> Error_IsRetryable unauthorized_401"
    by (simp_all add: Error_IsRetryable_def internal_error_500_def unauthorized_401_def Code_defs)
  have s: "server_fails_twice 0 = Failure (ApiError internal_error_500)"
    "server_fails_twice 1 = Failure (ApiError internal_error_500)"
    "server_fails_twice 2 = Success ''ok''"
    "server_unauthorized 0 = Failure (ApiError unauthorized_401)"
    by (simp_all add: server_fails_twice_def server_unauthorized_def)
  show ?thesis
    using doWithRetry_attempts [OF h(1), of server_fails_twice no_jitter]
      doWithRetry_attempts [OF h(1), of server_unauthorized no_jitter] h(2) r s
    by blast
qed

text \<open>
  With \<open>max_retries = -1\<close> and a server that answers 401 to every request, no request is
  made and no error is returned.
\<close>

theorem doWithRetry_negative_max_retries:
  "maxRetries (test_client (- 1)) = - 1
   \<and> server_unauthorized 0 = Failure (ApiError unauthorized_401)
   \<and> \<not> Error_IsRetryable unauthorized_401
   \<and> requests (doWithRetry (test_client (- 1)) server_unauthorized no_jitter) = 0
   \<and> ret_err (doWithRetry (test_client (- 1)) server_unauthorized no_jitter) = None
   \<and> ret_resp (doWithRetry (test_client (- 1)) server_unauthorized no_jitter) = None"
  by (simp add: doWithRetry_def retry_loop.simps test_client_def newHTTPClient_def
      server_unauthorized_def Error_IsRetryable_def unauthorized_401_def Code_defs)

subsection \<open>The retry delay\<close>











subsection \<open>The request signer\<close>

lemma fold_update_distinct:
  "distinct (map fst m) \<Longrightarrow> distinct (map fst (fold (\<lambda>(k, v) m. AList.update k v m) fm m))"
  by (induction fm arbitrary: m) (auto simp: distinct_update)

lemma map_of_fold_update:
  "map_of (fold (\<lambda>(k, v) m. AList.update k v m) fm m) = map_of m ++ map_of (rev fm)"
proof (induction fm arbitrary: m)
  case Nil
  then show ?case by simp
next
  case (Cons kv fm)
  obtain k v where kv: "kv = (k, v)" by (cases kv)
  have "map_of (fold (\<lambda>(k, v) m. AList.update k v m) (kv # fm) m) =
        map_of (AList.update k v m) ++ map_of (rev fm)"
    using Cons.IH [of "AList.update k v m"] by (simp add: kv)
  also have "\<dots> = map_of m ++ map_of (rev (kv # fm))"
    by (simp add: kv update_conv' map_add_upd_left fun_eq_iff map_add_def split: option.splits)
  finally show ?case .
qed

lemma signParams_distinct: "distinct (map fst (signParams_of keyID ex fm))"
  unfolding signParams_of_def by (rule fold_update_distinct) simp

lemma signParams_same_pairs:
  assumes "distinct (map fst fm1)" "distinct (map fst fm2)" "set fm1 = set fm2"
  shows "map_of (signParams_of keyID ex fm1) = map_of (signParams_of keyID ex fm2)"
proof -
  have "map_of (rev fm1) = map_of (rev fm2)"
    using assms by (subst map_of_inject_set) (simp_all add: rev_map [symmetric])
  then show ?thesis by (simp add: signParams_of_def map_of_fold_update)
qed

lemma sort_keys_unique:
  assumes "distinct (map fst a)" "distinct (map fst b)" "map_of a = map_of b"
  shows "sort (map fst a) = sort (map fst b)"
proof -
  have "set (map fst a) = set (map fst b)"
    using assms(3) by (metis dom_map_of_conv_image_fst set_map)
  then show ?thesis
    using assms(1,2) by (intro sorted_distinct_set_unique) simp_all
qed

text \<open>The query string depends on the content of the signed map only, not on its order.\<close>

lemma queryString_of_cong:
  assumes "distinct (map fst a)" "distinct (map fst b)" "map_of a = map_of b"
  shows "queryString_of a = queryString_of b"
  using sort_keys_unique [OF assms] assms(3) by (simp add: queryString_of_def map_index_def)

text \<open>
  C6. Signing is deterministic and independent of order: for every secret, key id and
  expiry, two parameter maps with exactly the same key/value pairs, in whatever order
  they are iterated, give the same canonical query string, and so the same result of
  \<^verbatim>\<open>GenerateURL\<close>, signature and signed URL included. The query string lists the keys
  of the signed map in ascending lexicographic order, once each, as \<open>key=value\<close> pairs with
  the value percent-encoded, joined by \<open>&\<close>; the signature is the hexadecimal HMAC-SHA256
  of that string under the secret.
\<close>

theorem GenerateURL_order_independent:
  "(distinct (map fst fm1) \<and> distinct (map fst fm2) \<and> set fm1 = set fm2 \<longrightarrow>
      queryString_of (signParams_of keyID ex fm1) = queryString_of (signParams_of keyID ex fm2)
      \<and> GenerateURL c fm1 ex sk pk = GenerateURL c fm2 ex sk pk)
   \<and> (distinct (map fst sp1) \<and> distinct (map fst sp2) \<and> set sp1 = set sp2 \<longrightarrow>
      queryString_of sp1 = queryString_of sp2)
   \<and> queryString_of (signParams_of keyID ex fm) =
       strings_Join
         (map (\<lambda>k. k @ ''='' @ QueryEscape (map_index (signParams_of keyID ex fm) k))
            (sorted_list_of_set (fst ` set (signParams_of keyID ex fm)))) ''&''
   \<and> (secret \<noteq> '''' \<and> keyID \<noteq> '''' \<longrightarrow>
        GenerateURL c fm ex secret keyID =
          (baseURL (http c) @ ''/v1/screenshot?'' @ queryString_of (signParams_of keyID ex fm)
             @ ''&signature=''
             @ hex_EncodeToString
                 (hmac_sha256 (bytes secret) (bytes (queryString_of (signParams_of keyID ex fm)))),
           None))"
proof -
  have q: "queryString_of (signParams_of k ex fm1) = queryString_of (signParams_of k ex fm2)"
    if "distinct (map fst fm1)" "distinct (map fst fm2)" "set fm1 = set fm2" for k
    using that by (intro queryString_of_cong signParams_distinct signParams_same_pairs)
  have g: "GenerateURL c fm1 ex sk pk = GenerateURL c fm2 ex sk pk"
    if "distinct (map fst fm1)" "distinct (map fst fm2)" "set fm1 = set fm2"
    using q [OF that] by (simp add: GenerateURL_def Let_def)
  have p: "queryString_of sp1 = queryString_of sp2"
    if "distinct (map fst sp1)" "distinct (map fst sp2)" "set sp1 = set sp2"
    using that by (intro queryString_of_cong) (simp_all add: map_of_inject_set)
  have s: "sort (map fst (signParams_of keyID ex fm)) =
      sorted_list_of_set (fst ` set (signParams_of keyID ex fm))"
  proof -
    have "sorted_list_of_set (set (map fst (signParams_of keyID ex fm))) =
        sort (remdups (map fst (signParams_of keyID ex fm)))"
      by (rule sorted_list_of_set_sort_remdups)
    then show ?thesis
      using signParams_distinct [of keyID ex fm] by (simp add: distinct_remdups_id)
  qed
  show ?thesis
    using q g p s by (simp add: queryString_of_def GenerateURL_def Let_def)
qed

theorem GenerateURL_order_independent_witness:
  "GenerateURL signing_client [(''url'', ''https://example.com''), (''preset'', ''og_card'')]
       1700000000 '''' ''''
   = GenerateURL signing_client [(''preset'', ''og_card''), (''url'', ''https://example.com'')]
       1700000000 '''' ''''"
proof -
  have h: "distinct (map fst [(''url'', ''https://example.com''), (''preset'', ''og_card'')])
      \<and> distinct (map fst [(''preset'', ''og_card''), (''url'', ''https://example.com'')])
      \<and> set [(''url'', ''https://example.com''), (''preset'', ''og_card'')]
          = set [(''preset'', ''og_card''), (''url'', ''https://example.com'')]"
    by auto
  show ?thesis
    using h GenerateURL_order_independent
      [where ?fm1.0 = "[(''url'', ''https://example.com''), (''preset'', ''og_card'')]"
         and ?fm2.0 = "[(''preset'', ''og_card''), (''url'', ''https://example.com'')]"
         and c = signing_client and ex = 1700000000 and sk = "''''" and pk = "''''"]
    by blast
qed

text \<open>
  C9. \<^verbatim>\<open>GenerateURL\<close> returns an error exactly when the effective signing key (the
  argument, or the client's key when the argument is empty) or the effective public key id
  (likewise) is empty. That error is a typed API error with code \<open>invalid_request\<close> and
  status 400, it is not retryable, and the URL returned with it is empty; when no error is
  returned the URL is not empty.
\<close>

theorem GenerateURL_error_iff:
  "(snd (GenerateURL c fm ex sk pk) \<noteq> None \<longleftrightarrow>
      (if sk = '''' then signingKey c else sk) = ''''
      \<or> (if pk = '''' then publicKeyID c else pk) = '''')
   \<and> (\<forall>e. snd (GenerateURL c fm ex sk pk) = Some e \<longrightarrow>
        Code e = ''invalid_request'' \<and> HTTPStatus e = 400 \<and> \<not> IsRetryable (ApiError e)
        \<and> fst (GenerateURL c fm ex sk pk) = '''')
   \<and> (snd (GenerateURL c fm ex sk pk) = None \<longrightarrow> fst (GenerateURL c fm ex sk pk) \<noteq> '''')"
  by (auto simp: GenerateURL_def Let_def IsRetryable_def Error_IsRetryable_def Code_defs)

theorem GenerateURL_error_iff_witness:
  "snd (GenerateURL unsigned_client [(''url'', ''https://example.com'')] 1700000000 '''' '''')
     \<noteq> None
   \<and> fst (GenerateURL unsigned_client [(''url'', ''https://example.com'')] 1700000000 '''' '''')
     = ''''
   \<and> snd (GenerateURL unsigned_client [(''url'', ''https://example.com'')] 1700000000
       ''rs_secret_override'' ''rs_pub_override'') = None
   \<and> fst (GenerateURL unsigned_client [(''url'', ''https://example.com'')] 1700000000
       ''rs_secret_override'' ''rs_pub_override'') \<noteq> ''''"
proof -
  have h: "signingKey unsigned_client = ''''" "publicKeyID unsigned_client = ''''"
    by (simp_all add: unsigned_client_def)
  show ?thesis
    using h
      GenerateURL_error_iff [of unsigned_client "[(''url'', ''https://example.com'')]"
        1700000000 "''''" "''''"]
      GenerateURL_error_iff [of unsigned_client "[(''url'', ''https://example.com'')]"
        1700000000 "''rs_secret_override''" "''rs_pub_override''"]
    by auto
qed

end
